theory Spec2Isabelle
  imports Complex_Main "HOL-Library.Multiset" "HOL-Library.Product_Lexorder"
begin

section \<open>Semantic search engine: \<^verbatim>\<open>semantic-search/search.py\<close>\<close>

text \<open>
  A shallow embedding of the class \<^verbatim>\<open>SemanticSearchEngine\<close>: its constructor, the two
  loaders, \<^verbatim>\<open>vector_search\<close> and \<^verbatim>\<open>search\<close>.

  Conventions of the embedding.
  \<^item> A Python exception is the left summand of a result \<open>error + 'a\<close>.
  \<^item> The functions imported from \<^verbatim>\<open>embeddings\<close> and \<^verbatim>\<open>reranker\<close> and the
    reading of the corpus file are not part of \<^verbatim>\<open>search.py\<close>. They are parameters,
    collected in the record \<open>collaborators\<close>; each one that touches the outside (files,
    the embedding model) transforms an abstract outside state \<open>'w\<close> and may raise.
  \<^item> The object's attributes are the record \<open>engine\<close>; every method takes the pair of
    the engine and the outside state and returns the pair it leaves behind.
  \<^item> The two readings of \<^verbatim>\<open>time.time()\<close> in \<^verbatim>\<open>search\<close> are arguments.
  \<^item> \<^verbatim>\<open>print\<close> is not modelled.
\<close>

subsection \<open>Python floats\<close>

text \<open>
  A finite float is modelled by the rational number it denotes; the two infinities and
  NaN are separate values. Negation and comparison of floats are exact, so on this model
  they are the operations of Python. The zero of either sign is \<open>Fin 0\<close>: the two compare
  equal in Python and no operation used here tells them apart.
\<close>

datatype pyfloat = Fin rat | PInf | NInf | NaN

fun fl_lt :: "pyfloat \<Rightarrow> pyfloat \<Rightarrow> bool" where
  "fl_lt (Fin a) (Fin b) = (a < b)"
| "fl_lt (Fin a) PInf = True"
| "fl_lt NInf (Fin b) = True"
| "fl_lt NInf PInf = True"
| "fl_lt _ _ = False"

fun fl_eq :: "pyfloat \<Rightarrow> pyfloat \<Rightarrow> bool" where
  "fl_eq (Fin a) (Fin b) = (a = b)"
| "fl_eq PInf PInf = True"
| "fl_eq NInf NInf = True"
| "fl_eq _ _ = False"

fun fl_neg :: "pyfloat \<Rightarrow> pyfloat" where
  "fl_neg (Fin a) = Fin (- a)"
| "fl_neg PInf = NInf"
| "fl_neg NInf = PInf"
| "fl_neg NaN = NaN"

fun isnan :: "pyfloat \<Rightarrow> bool" where
  "isnan NaN = True"
| "isnan _ = False"

text \<open>\<^verbatim>\<open>x or y\<close> on floats: \<open>x\<close> unless it is falsy, and the only falsy float is zero.\<close>

definition py_or :: "pyfloat \<Rightarrow> pyfloat \<Rightarrow> pyfloat" where
  "py_or x y = (if x = Fin 0 then y else x)"

text \<open>
  The builtins \<^verbatim>\<open>min(a, b)\<close> and \<^verbatim>\<open>max(a, b)\<close> return the first argument unless the
  second is strictly smaller (strictly greater).
\<close>

definition py_min :: "pyfloat \<Rightarrow> pyfloat \<Rightarrow> pyfloat" where
  "py_min a b = (if fl_lt b a then b else a)"

definition py_max :: "pyfloat \<Rightarrow> pyfloat \<Rightarrow> pyfloat" where
  "py_max a b = (if fl_lt a b then b else a)"

text \<open>
  \<^verbatim>\<open>round(x, 4)\<close> rounds the exact value of the float to the nearest multiple of
  \<open>1/10000\<close>, a tie going to the even multiple, and leaves an infinity or NaN as it is.
  Python then returns the float nearest to that decimal; the model returns the decimal.
\<close>

definition round_half_even :: "rat \<Rightarrow> int" where
  "round_half_even x =
     (let f = \<lfloor>x\<rfloor>; d = x - of_int f
      in if d < 1 / 2 then f
         else if 1 / 2 < d then f + 1
         else if even f then f else f + 1)"

fun py_round4 :: "pyfloat \<Rightarrow> pyfloat" where
  "py_round4 (Fin q) = Fin (of_int (round_half_even (q * 10000)) / 10000)"
| "py_round4 x = x"

text \<open>\<^verbatim>\<open>int(x)\<close> on a finite float truncates towards zero.\<close>

definition py_int :: "rat \<Rightarrow> int" where
  "py_int x = (if 0 \<le> x then \<lfloor>x\<rfloor> else \<lceil>x\<rceil>)"

subsection \<open>Strings and slices\<close>

text \<open>
  A query is a list of characters with code points below 256. \<^verbatim>\<open>str.strip()\<close> removes
  the characters for which \<^verbatim>\<open>str.isspace\<close> holds from both ends; below 256 these are
  the code points 9 to 13, 28 to 32, 133 and 160.
\<close>

definition isspace :: "char \<Rightarrow> bool" where
  "isspace c = (let n = of_char c :: nat
                in (9 \<le> n \<and> n \<le> 13) \<or> (28 \<le> n \<and> n \<le> 32) \<or> n = 133 \<or> n = 160)"

definition strip :: "string \<Rightarrow> string" where
  "strip s = rev (dropWhile isspace (rev (dropWhile isspace s)))"

text \<open>
  The slice \<^verbatim>\<open>xs[:k]\<close>: the first \<open>k\<close> elements when \<open>k\<close> is not negative, and all
  but the last \<open>-k\<close> elements when it is.
\<close>

definition slice_to :: "int \<Rightarrow> 'a list \<Rightarrow> 'a list" where
  "slice_to k xs =
     (if 0 \<le> k then take (nat k) xs else take (nat (int (length xs) + k)) xs)"

subsection \<open>Data\<close>

datatype error =
    IndexError
  | KeyError string
  | CollaboratorError string

type_synonym vec = "pyfloat list"

text \<open>
  A document is a dictionary read from the corpus file. The engine reads four of its
  keys; a field is \<open>None\<close> when the dictionary lacks the key. Identifiers are integers.
\<close>

record document =
  doc_id :: "int option"
  doc_content :: "string option"
  doc_title :: "string option"
  doc_source :: "string option"

text \<open>The dictionary that \<^verbatim>\<open>vector_search\<close> builds for every scored document.\<close>

record candidate =
  cand_id :: int
  cand_score :: pyfloat
  cand_content :: string
  cand_title :: string
  cand_source :: string

text \<open>
  The response of \<^verbatim>\<open>search\<close> is a dictionary of dictionaries and lists. Its keys are
  part of what the caller sees, so it is modelled as a value with its keys, in the order
  of insertion.
\<close>

datatype json =
    JInt int
  | JFloat pyfloat
  | JStr string
  | JBool bool
  | JList "json list"
  | JDict "(string \<times> json) list"

fun dict_keys :: "json \<Rightarrow> string list" where
  "dict_keys (JDict kvs) = map fst kvs"
| "dict_keys _ = []"

fun dict_lookup :: "json \<Rightarrow> string \<Rightarrow> json option" where
  "dict_lookup (JDict kvs) key = map_of kvs key"
| "dict_lookup _ key = None"

fun list_items :: "json \<Rightarrow> json list" where
  "list_items (JList xs) = xs"
| "list_items _ = []"

record engine =
  documents :: "document list"
  embeddings :: "vec list"

text \<open>
  The collaborators. \<open>read_documents\<close> stands for opening \<^verbatim>\<open>Config.DATA_PATH\<close> and
  \<^verbatim>\<open>json.load\<close>; \<open>load_embeddings\<close> returns \<open>None\<close> when there is no cache.
  \<open>cosine_similarity\<close> is a function of its two arguments that returns a float.
  \<open>rerank_batch\<close> is imported by the module.
\<close>

record 'w collaborators =
  read_documents :: "'w \<Rightarrow> (error + document list) \<times> 'w"
  load_embeddings :: "'w \<Rightarrow> (error + vec list option) \<times> 'w"
  compute_document_embeddings :: "document list \<Rightarrow> 'w \<Rightarrow> (error + vec list) \<times> 'w"
  save_embeddings :: "vec list \<Rightarrow> 'w \<Rightarrow> (error + unit) \<times> 'w"
  get_embedding :: "string \<Rightarrow> 'w \<Rightarrow> (error + vec) \<times> 'w"
  cosine_similarity :: "vec \<Rightarrow> vec \<Rightarrow> pyfloat"
  rerank_batch :: "string \<Rightarrow> candidate list \<Rightarrow> int \<Rightarrow> 'w \<Rightarrow> (error + candidate list) \<times> 'w"

subsection \<open>Construction: \<^verbatim>\<open>__init__\<close>, \<^verbatim>\<open>load_documents\<close>, \<^verbatim>\<open>load_or_compute_embeddings\<close>\<close>

text \<open>
  An exception leaves the constructor, so an engine exists only when every step has
  returned; the result of a failed method is the error and the outside state.
\<close>

definition load_documents ::
  "'w collaborators \<Rightarrow> engine \<times> 'w \<Rightarrow> (error + engine) \<times> 'w" where
  "load_documents col st =
     (case st of (self, w) \<Rightarrow>
        (case read_documents col w of
           (Inl err, w1) \<Rightarrow> (Inl err, w1)
         | (Inr docs, w1) \<Rightarrow> (Inr (self\<lparr>documents := docs\<rparr>), w1)))"

definition load_or_compute_embeddings ::
  "'w collaborators \<Rightarrow> engine \<times> 'w \<Rightarrow> (error + engine) \<times> 'w" where
  "load_or_compute_embeddings col st =
     (case st of (self, w) \<Rightarrow>
        (case load_embeddings col w of
           (Inl err, w1) \<Rightarrow> (Inl err, w1)
         | (Inr (Some cached), w1) \<Rightarrow> (Inr (self\<lparr>embeddings := cached\<rparr>), w1)
         | (Inr None, w1) \<Rightarrow>
             (case compute_document_embeddings col (documents self) w1 of
                (Inl err, w2) \<Rightarrow> (Inl err, w2)
              | (Inr computed, w2) \<Rightarrow>
                  (case save_embeddings col computed w2 of
                     (Inl err, w3) \<Rightarrow> (Inl err, w3)
                   | (Inr u, w3) \<Rightarrow> (Inr (self\<lparr>embeddings := computed\<rparr>), w3)))))"

definition engine_init :: "'w collaborators \<Rightarrow> 'w \<Rightarrow> (error + engine) \<times> 'w" where
  "engine_init col w =
     (case load_documents col (\<lparr>documents = [], embeddings = []\<rparr>, w) of
        (Inl err, w1) \<Rightarrow> (Inl err, w1)
      | (Inr self, w1) \<Rightarrow> load_or_compute_embeddings col (self, w1))"

subsection \<open>\<^verbatim>\<open>vector_search\<close>\<close>

text \<open>
  \<^verbatim>\<open>d.get(key, default)\<close>, given what the dictionary holds under the key.
\<close>

definition dict_get :: "'a option \<Rightarrow> 'a \<Rightarrow> 'a" where
  "dict_get held dflt = (case held of None \<Rightarrow> dflt | Some v \<Rightarrow> v)"

text \<open>
  The dictionary appended for index \<open>i\<close>: \<^verbatim>\<open>self.documents[i]\<close> raises IndexError
  beyond the end of the list, and the subscripts \<^verbatim>\<open>['id']\<close> and \<^verbatim>\<open>['content']\<close>
  raise KeyError on a document without the key, in the order of the dictionary display.
\<close>

definition make_candidate :: "document list \<Rightarrow> nat \<Rightarrow> pyfloat \<Rightarrow> error + candidate" where
  "make_candidate docs i similarity =
     (if length docs \<le> i then Inl IndexError
      else (case doc_id (docs ! i) of
              None \<Rightarrow> Inl (KeyError ''id'')
            | Some ident \<Rightarrow>
                (case doc_content (docs ! i) of
                   None \<Rightarrow> Inl (KeyError ''content'')
                 | Some content \<Rightarrow>
                     Inr \<lparr>cand_id = ident,
                          cand_score = similarity,
                          cand_content = content,
                          cand_title = dict_get (doc_title (docs ! i)) [],
                          cand_source = dict_get (doc_source (docs ! i)) []\<rparr>)))"

text \<open>
  The loop over \<^verbatim>\<open>enumerate(self.embeddings)\<close>: \<open>i\<close> is the index of the head of
  the embeddings still to visit, \<open>similarities\<close> the list appended to so far.
\<close>

fun scan ::
  "(vec \<Rightarrow> vec \<Rightarrow> pyfloat) \<Rightarrow> document list \<Rightarrow> vec \<Rightarrow> nat \<Rightarrow> vec list \<Rightarrow>
   candidate list \<Rightarrow> error + candidate list" where
  "scan cs docs query_embedding i [] similarities = Inr similarities"
| "scan cs docs query_embedding i (doc_embedding # rest) similarities =
     (case make_candidate docs i (cs query_embedding doc_embedding) of
        Inl err \<Rightarrow> Inl err
      | Inr c \<Rightarrow> scan cs docs query_embedding (Suc i) rest (similarities @ [c]))"

text \<open>
  The sort key \<^verbatim>\<open>(-x['score'], x['id'])\<close> and the comparison \<^verbatim>\<open><\<close> of two such
  tuples: the first components decide unless they are equal.
\<close>

definition sorting_key :: "candidate \<Rightarrow> pyfloat \<times> int" where
  "sorting_key x = (fl_neg (cand_score x), cand_id x)"

definition key_lt :: "pyfloat \<times> int \<Rightarrow> pyfloat \<times> int \<Rightarrow> bool" where
  "key_lt a b = (if fl_eq (fst a) (fst b) then snd a < snd b else fl_lt (fst a) (fst b))"

text \<open>
  \<^verbatim>\<open>list.sort\<close> is a stable sort that compares keys with \<^verbatim>\<open><\<close> only. It is modelled
  by the stable insertion sort: each element in turn goes behind the elements that are
  not greater than it. When no key holds a NaN the comparison is a strict weak order,
  every stable sort returns the same list, and the model is exact (lemma
  \<open>list_sort_is_stable_sort\<close>). With a NaN among the keys the comparison is no order
  at all and the list that Python returns depends on the comparisons that the
  implementation happens to make, which are not modelled. The model is exact still on a
  list of two elements: when neither key is less than the other a stable sort leaves the
  two in place, and so does the model. On longer lists with a NaN the model returns a
  rearrangement of the elements, as every sort does, and nothing below that depends on
  the positions is stated for them.
\<close>

fun insert_sorted :: "candidate \<Rightarrow> candidate list \<Rightarrow> candidate list" where
  "insert_sorted x [] = [x]"
| "insert_sorted x (y # ys) =
     (if key_lt (sorting_key x) (sorting_key y) then x # y # ys else y # insert_sorted x ys)"

definition list_sort :: "candidate list \<Rightarrow> candidate list" where
  "list_sort xs = foldl (\<lambda>sorted_prefix x. insert_sorted x sorted_prefix) [] xs"

definition vector_search ::
  "'w collaborators \<Rightarrow> engine \<Rightarrow> vec \<Rightarrow> int \<Rightarrow> error + candidate list" where
  "vector_search col self query_embedding k =
     (case scan (cosine_similarity col) (documents self) query_embedding 0
             (embeddings self) [] of
        Inl err \<Rightarrow> Inl err
      | Inr similarities \<Rightarrow> Inr (slice_to k (list_sort similarities)))"

subsection \<open>\<^verbatim>\<open>search\<close>\<close>

text \<open>
  The score of a result, from what the candidate holds under \<^verbatim>\<open>'score'\<close>:
  \<^verbatim>\<open>round(max(0.0, min(1.0, 0.0 if math.isnan(float(s or 0.0)) else float(s or 0.0))), 4)\<close>
  with \<^verbatim>\<open>s = r.get('score', 0.0)\<close>. \<^verbatim>\<open>float\<close> of a float is that float.
\<close>

definition normalize_score :: "pyfloat option \<Rightarrow> pyfloat" where
  "normalize_score held =
     (let s = py_or (dict_get held (Fin 0)) (Fin 0)
      in py_round4 (py_max (Fin 0) (py_min (Fin 1) (if isnan s then Fin 0 else s))))"

text \<open>
  A candidate built by \<^verbatim>\<open>vector_search\<close> has all five keys, so every \<^verbatim>\<open>r.get\<close>
  finds its key.
\<close>

definition format_result :: "candidate \<Rightarrow> json" where
  "format_result r =
     JDict [(''id'', JInt (cand_id r)),
            (''score'', JFloat (normalize_score (Some (cand_score r)))),
            (''content'', JStr (cand_content r)),
            (''metadata'',
               JDict [(''title'', JStr (dict_get (Some (cand_title r)) [])),
                      (''source'', JStr (dict_get (Some (cand_source r)) []))])]"

definition make_response :: "json list \<Rightarrow> bool \<Rightarrow> int \<Rightarrow> nat \<Rightarrow> json" where
  "make_response results reranked latency total_docs =
     JDict [(''results'', JList results),
            (''reranked'', JBool reranked),
            (''metrics'',
               JDict [(''latency'', JInt latency),
                      (''totalDocs'', JInt (int total_docs))])]"

text \<open>
  \<open>start_time\<close> and \<open>end_time\<close> are the two values of \<^verbatim>\<open>time.time()\<close>; the second is
  read only on the path that reaches the latency. The difference and the product of the
  latency are computed on the rationals, where the code rounds each to a double; the two
  can differ by one millisecond, and no property below states a latency other than the 0
  of the blank query.
\<close>

definition search ::
  "'w collaborators \<Rightarrow> rat \<Rightarrow> rat \<Rightarrow> string \<Rightarrow> int \<Rightarrow> bool \<Rightarrow> int \<Rightarrow>
   engine \<times> 'w \<Rightarrow> (error + json) \<times> engine \<times> 'w" where
  "search col start_time end_time query k rerank rerank_k st =
     (case st of (self, w) \<Rightarrow>
        if query = [] \<or> strip query = []
        then (Inr (make_response [] False 0 (length (documents self))), self, w)
        else
          (case get_embedding col query w of
             (Inl err, w1) \<Rightarrow> (Inl err, self, w1)
           | (Inr query_embedding, w1) \<Rightarrow>
               (case vector_search col self query_embedding k of
                  Inl err \<Rightarrow> (Inl err, self, w1)
                | Inr candidates \<Rightarrow>
                    (let final_candidates = candidates;
                         results = (if rerank then slice_to rerank_k final_candidates
                                    else slice_to k final_candidates);
                         latency = py_int ((end_time - start_time) * 1000)
                     in (Inr (make_response (map format_result results) rerank latency
                                (length (documents self))),
                         self, w1)))))"

text \<open>The results and the two metrics of a response.\<close>

definition response_results :: "json \<Rightarrow> json list" where
  "response_results resp =
     (case dict_lookup resp ''results'' of Some v \<Rightarrow> list_items v | None \<Rightarrow> [])"

definition response_metrics :: "json \<Rightarrow> json" where
  "response_metrics resp =
     (case dict_lookup resp ''metrics'' of Some v \<Rightarrow> v | None \<Rightarrow> JDict [])"

subsection \<open>Serving\<close>

text \<open>
  A constructed engine is used through \<^verbatim>\<open>search\<close>. The states that can follow the
  construction are the ones left by a finite sequence of calls, each with its own
  arguments and clock readings.
\<close>

record request =
  req_start :: rat
  req_end :: rat
  req_query :: string
  req_k :: int
  req_rerank :: bool
  req_rerank_k :: int

fun serve :: "'w collaborators \<Rightarrow> request list \<Rightarrow> engine \<times> 'w \<Rightarrow> engine \<times> 'w" where
  "serve col [] st = st"
| "serve col (r # rs) st =
     serve col rs
       (snd (search col (req_start r) (req_end r) (req_query r) (req_k r) (req_rerank r)
               (req_rerank_k r) st))"

subsection \<open>Vocabulary of the properties\<close>

text \<open>
  \<open>ranks_before a b\<close>: candidate \<open>a\<close> may stand in front of candidate \<open>b\<close> in a list
  in descending order of score with ties broken by ascending identifier.
  \<open>ranks_strictly_before\<close> excludes the tie of both score and identifier.
\<close>

definition ranks_before :: "candidate \<Rightarrow> candidate \<Rightarrow> bool" where
  "ranks_before a b \<longleftrightarrow>
     fl_lt (cand_score b) (cand_score a) \<or>
     (fl_eq (cand_score a) (cand_score b) \<and> cand_id a \<le> cand_id b)"

definition ranks_strictly_before :: "candidate \<Rightarrow> candidate \<Rightarrow> bool" where
  "ranks_strictly_before a b \<longleftrightarrow>
     fl_lt (cand_score b) (cand_score a) \<or>
     (fl_eq (cand_score a) (cand_score b) \<and> cand_id a < cand_id b)"

text \<open>
  The sort key as an element of a linear order, for scores that are numbers: the scores
  in descending order, then the identifiers in ascending order, compared
  lexicographically.
\<close>

fun descending :: "pyfloat \<Rightarrow> int \<times> rat" where
  "descending PInf = (0, 0)"
| "descending (Fin q) = (1, - q)"
| "descending NInf = (2, 0)"
| "descending NaN = (3, 0)"

definition linear_key :: "candidate \<Rightarrow> (int \<times> rat) \<times> int" where
  "linear_key c = (descending (cand_score c), cand_id c)"

text \<open>A document with the two keys that \<^verbatim>\<open>vector_search\<close> reads by subscript.\<close>

definition well_formed :: "document \<Rightarrow> bool" where
  "well_formed d \<longleftrightarrow> doc_id d \<noteq> None \<and> doc_content d \<noteq> None"

text \<open>
  The normalisation of a score in the words of the specification: a score that is NaN or
  missing counts as 0, and the value is clamped into the interval from 0 to 1. The
  rounding to four decimal places is stated in the theorem.
\<close>

fun spec_clamped :: "pyfloat option \<Rightarrow> rat" where
  "spec_clamped None = 0"
| "spec_clamped (Some NaN) = 0"
| "spec_clamped (Some PInf) = 1"
| "spec_clamped (Some NInf) = 0"
| "spec_clamped (Some (Fin q)) = max 0 (min 1 q)"

subsection \<open>A corpus and test doubles for the collaborators\<close>

text \<open>
  Three documents with unit vectors as embeddings. For unit vectors the cosine similarity
  is the dot product, which stands in for the similarity; it is NaN when a component is
  not finite.
\<close>

fun dot_product :: "vec \<Rightarrow> vec \<Rightarrow> pyfloat" where
  "dot_product (Fin a # as) (Fin b # bs) =
     (case dot_product as bs of Fin r \<Rightarrow> Fin (a * b + r) | other \<Rightarrow> NaN)"
| "dot_product [] [] = Fin 0"
| "dot_product _ _ = NaN"

definition example_documents :: "document list" where
  "example_documents =
     [\<lparr>doc_id = Some 1, doc_content = Some ''alpha'', doc_title = Some ''A'',
       doc_source = None\<rparr>,
      \<lparr>doc_id = Some 2, doc_content = Some ''beta'', doc_title = None,
       doc_source = Some ''web''\<rparr>,
      \<lparr>doc_id = Some 3, doc_content = Some ''gamma'', doc_title = None,
       doc_source = None\<rparr>]"

definition example_embeddings :: "vec list" where
  "example_embeddings = [[Fin (3 / 5), Fin (4 / 5)], [Fin 1, Fin 0], [Fin 0, Fin 1]]"

text \<open>The vector that the bulk computer of the doubles gives a document.\<close>

definition example_embed :: "document \<Rightarrow> vec" where
  "example_embed d =
     (if doc_id d = Some 1 then [Fin (3 / 5), Fin (4 / 5)]
      else if doc_id d = Some 2 then [Fin 1, Fin 0]
      else [Fin 0, Fin 1])"

definition example_engine :: engine where
  "example_engine = \<lparr>documents = example_documents, embeddings = example_embeddings\<rparr>"

text \<open>
  The outside state of the doubles is the number of calls of the embedding generator.
  \<open>counting_double\<close> has no cache; \<open>cached_double\<close> has a cache written for the
  corpus, and \<open>stale_double\<close> one written for a corpus of one document.
\<close>

definition counting_double :: "nat collaborators" where
  "counting_double =
     \<lparr>read_documents = (\<lambda>n. (Inr example_documents, n)),
      load_embeddings = (\<lambda>n. (Inr None, n)),
      compute_document_embeddings = (\<lambda>docs n. (Inr (map example_embed docs), n)),
      save_embeddings = (\<lambda>vs n. (Inr (), n)),
      get_embedding = (\<lambda>text n. (Inr [Fin 1, Fin 0], Suc n)),
      cosine_similarity = dot_product,
      rerank_batch = (\<lambda>q cands rk n. (Inr cands, n))\<rparr>"

definition cached_double :: "nat collaborators" where
  "cached_double = counting_double\<lparr>load_embeddings := (\<lambda>n. (Inr (Some example_embeddings), n))\<rparr>"

definition stale_double :: "nat collaborators" where
  "stale_double = counting_double\<lparr>load_embeddings := (\<lambda>n. (Inr (Some [[Fin 1, Fin 0]]), n))\<rparr>"

text \<open>
  A double whose similarity is the first component of the document's vector, so that
  any score can be injected; an engine with one document and an injected NaN, and one
  with scores outside the interval from 0 to 1.
\<close>

definition injecting_double :: "nat collaborators" where
  "injecting_double =
     counting_double\<lparr>cosine_similarity := (\<lambda>q e. case e of [] \<Rightarrow> Fin 0 | x # rest \<Rightarrow> x)\<rparr>"

definition injected_engine :: engine where
  "injected_engine =
     \<lparr>documents = [\<lparr>doc_id = Some 7, doc_content = Some ''eta'', doc_title = None,
                     doc_source = None\<rparr>],
      embeddings = [[NaN]]\<rparr>"

definition out_of_range_engine :: engine where
  "out_of_range_engine =
     \<lparr>documents = example_documents,
      embeddings = [[Fin (7 / 3)], [Fin (12346 / 100000)], [Fin (- 2)]]\<rparr>"

text \<open>
  Two engines with the same two documents in either order; the embedding of the document
  with identifier 1 holds a NaN, so that its similarity is NaN.
\<close>

definition nan_first_engine :: engine where
  "nan_first_engine =
     \<lparr>documents = [\<lparr>doc_id = Some 1, doc_content = Some ''alpha'', doc_title = None,
                     doc_source = None\<rparr>,
                   \<lparr>doc_id = Some 2, doc_content = Some ''beta'', doc_title = None,
                     doc_source = None\<rparr>],
      embeddings = [[NaN, Fin 0], [Fin 1, Fin 0]]\<rparr>"

definition nan_last_engine :: engine where
  "nan_last_engine =
     \<lparr>documents = [\<lparr>doc_id = Some 2, doc_content = Some ''beta'', doc_title = None,
                     doc_source = None\<rparr>,
                   \<lparr>doc_id = Some 1, doc_content = Some ''alpha'', doc_title = None,
                     doc_source = None\<rparr>],
      embeddings = [[Fin 1, Fin 0], [NaN, Fin 0]]\<rparr>"

text \<open>An engine with one embedding more than it has documents.\<close>

definition overlong_engine :: engine where
  "overlong_engine =
     \<lparr>documents = example_documents, embeddings = example_embeddings @ [[Fin 0, Fin 0]]\<rparr>"

lemmas example_defs =
  example_documents_def example_embeddings_def example_engine_def counting_double_def
  stale_double_def injecting_double_def injected_engine_def out_of_range_engine_def
  cached_double_def example_embed_def nan_first_engine_def nan_last_engine_def
  overlong_engine_def

lemmas model_defs =
  search_def vector_search_def make_candidate_def dict_get_def list_sort_def sorting_key_def
  key_lt_def slice_to_def format_result_def normalize_score_def py_or_def py_min_def
  py_max_def round_half_even_def py_int_def make_response_def response_results_def
  response_metrics_def
  strip_def isspace_def

section \<open>Properties\<close>

subsection \<open>Blank queries\<close>

lemma dropWhile_all_left: "(\<forall>c \<in> set (dropWhile P xs). P c) \<longleftrightarrow> (\<forall>c \<in> set xs. P c)"
  by (induction xs) auto

lemma strip_empty_iff: "strip s = [] \<longleftrightarrow> (\<forall>c \<in> set s. isspace c)"
proof -
  have "strip s = [] \<longleftrightarrow> dropWhile isspace (rev (dropWhile isspace s)) = []"
    by (simp add: strip_def)
  also have "\<dots> \<longleftrightarrow> (\<forall>c \<in> set (dropWhile isspace s). isspace c)"
    by (simp add: dropWhile_eq_Nil_conv)
  also have "\<dots> \<longleftrightarrow> (\<forall>c \<in> set s. isspace c)"
    by (rule dropWhile_all_left)
  finally show ?thesis .
qed

subsection \<open>The two outcomes of a search on a query that is not blank\<close>

lemma not_blank: "(\<exists>c \<in> set query. \<not> isspace c) \<Longrightarrow> \<not> (query = [] \<or> strip query = [])"
  by (auto simp add: strip_empty_iff)

lemma search_returns:
  assumes "\<exists>c \<in> set query. \<not> isspace c"
    and "get_embedding col query w = (Inr qv, w1)"
    and "vector_search col self qv k = Inr cands"
  shows "search col t0 t1 query k rerank rk (self, w) =
           (Inr (make_response (map format_result (slice_to (if rerank then rk else k) cands))
                   rerank (py_int ((t1 - t0) * 1000)) (length (documents self))),
            self, w1)"
  using not_blank [OF assms(1)] assms(2,3) by (simp add: search_def)

lemma search_inversion:
  assumes "search col t0 t1 query k rerank rk (self, w) = (Inr resp, st')"
    and "\<exists>c \<in> set query. \<not> isspace c"
  shows "\<exists>qv w1 cands.
           get_embedding col query w = (Inr qv, w1) \<and>
           vector_search col self qv k = Inr cands \<and>
           st' = (self, w1) \<and>
           resp = make_response (map format_result (slice_to (if rerank then rk else k) cands))
                    rerank (py_int ((t1 - t0) * 1000)) (length (documents self))"
proof -
  obtain out w1 where ge: "get_embedding col query w = (out, w1)"
    by (cases "get_embedding col query w")
  from assms(2) have nb: "\<not> (query = [] \<or> strip query = [])" by (rule not_blank)
  show ?thesis
  proof (cases out)
    case (Inl err)
    with assms(1) nb ge show ?thesis by (simp add: search_def)
  next
    case (Inr qv)
    note qv = this
    show ?thesis
    proof (cases "vector_search col self qv k")
      case (Inl err)
      with assms(1) nb ge qv show ?thesis by (simp add: search_def)
    next
      case (Inr cands)
      with assms(1) nb ge qv show ?thesis by (auto simp add: search_def)
    qed
  qed
qed

lemma search_engine_unchanged: "fst (snd (search col t0 t1 query k rerank rk (self, w))) = self"
  by (simp add: search_def split: prod.splits sum.splits)

lemma results_make_response [simp]: "response_results (make_response rs b l n) = rs"
  by (simp add: response_results_def make_response_def)

subsection \<open>The scan\<close>

lemma make_candidate_index:
  "make_candidate docs i s = Inl IndexError \<longleftrightarrow> length docs \<le> i"
  by (simp add: make_candidate_def split: option.splits)

lemma make_candidate_well_formed:
  assumes "i < length docs" and "well_formed (docs ! i)"
  shows "\<exists>c. make_candidate docs i s = Inr c \<and>
             Some (cand_id c) = doc_id (docs ! i) \<and>
             Some (cand_content c) = doc_content (docs ! i) \<and>
             cand_score c = s \<and>
             cand_title c = dict_get (doc_title (docs ! i)) [] \<and>
             cand_source c = dict_get (doc_source (docs ! i)) []"
  using assms by (auto simp add: make_candidate_def well_formed_def)

lemma scan_length:
  "scan cs docs q i es acc = Inr r \<Longrightarrow> i \<le> length docs \<Longrightarrow>
     i + length es \<le> length docs \<and> length r = length acc + length es"
proof (induction es arbitrary: i acc)
  case Nil
  then show ?case by simp
next
  case (Cons e es)
  from Cons.prems obtain c where
    c: "make_candidate docs i (cs q e) = Inr c" and
    rest: "scan cs docs q (Suc i) es (acc @ [c]) = Inr r"
    by (auto split: sum.splits)
  from c have "Suc i \<le> length docs"
    by (auto simp add: make_candidate_def split: if_splits)
  from Cons.IH [OF rest this] show ?case by simp
qed

lemma scan_too_long:
  assumes "length docs < i + length es" and "i \<le> length docs"
  shows "\<exists>err. scan cs docs q i es acc = Inl err"
proof (cases "scan cs docs q i es acc")
  case (Inl err)
  then show ?thesis by blast
next
  case (Inr r)
  with scan_length [OF Inr assms(2)] assms(1) show ?thesis by simp
qed

lemma scan_no_index_error:
  "i + length es \<le> length docs \<Longrightarrow> scan cs docs q i es acc \<noteq> Inl IndexError"
proof (induction es arbitrary: i acc)
  case Nil
  then show ?case by simp
next
  case (Cons e es)
  then have "i < length docs" by simp
  then have "make_candidate docs i (cs q e) \<noteq> Inl IndexError"
    by (simp add: make_candidate_index)
  moreover have "scan cs docs q (Suc i) es (acc @ [c]) \<noteq> Inl IndexError" for c
    using Cons.prems by (intro Cons.IH) simp
  ultimately show ?case by (auto split: sum.splits)
qed

lemma scan_index_error:
  assumes "\<forall>d \<in> set docs. well_formed d"
  shows "length docs < i + length es \<Longrightarrow> i \<le> length docs \<Longrightarrow>
         scan cs docs q i es acc = Inl IndexError"
proof (induction es arbitrary: i acc)
  case Nil
  then show ?case by simp
next
  case (Cons e es)
  show ?case
  proof (cases "i < length docs")
    case True
    with assms have "well_formed (docs ! i)" by simp
    from make_candidate_well_formed [OF True this] obtain c where
      "make_candidate docs i (cs q e) = Inr c" by blast
    moreover have "scan cs docs q (Suc i) es (acc @ [c]) = Inl IndexError"
      using Cons.prems True by (intro Cons.IH) simp_all
    ultimately show ?thesis by simp
  next
    case False
    then have "make_candidate docs i (cs q e) = Inl IndexError"
      by (simp add: make_candidate_index)
    then show ?thesis by simp
  qed
qed

lemma scan_well_formed:
  assumes "\<forall>d \<in> set docs. well_formed d"
  shows "i + length es \<le> length docs \<Longrightarrow>
         \<exists>r. scan cs docs q i es acc = Inr (acc @ r) \<and>
             map (\<lambda>c. Some (cand_id c)) r = map doc_id (take (length es) (drop i docs)) \<and>
             map (\<lambda>c. Some (cand_content c)) r = map doc_content (take (length es) (drop i docs)) \<and>
             map cand_score r = map (cs q) es"
proof (induction es arbitrary: i acc)
  case Nil
  then show ?case by simp
next
  case (Cons e es)
  then have i: "i < length docs" by simp
  with assms have "well_formed (docs ! i)" by simp
  from make_candidate_well_formed [OF i this, of "cs q e"] obtain c where
    c: "make_candidate docs i (cs q e) = Inr c"
       "Some (cand_id c) = doc_id (docs ! i)"
       "Some (cand_content c) = doc_content (docs ! i)"
       "cand_score c = cs q e"
    by blast
  have "Suc i + length es \<le> length docs" using Cons.prems by simp
  from Cons.IH [OF this, of "acc @ [c]"] obtain r where
    r: "scan cs docs q (Suc i) es (acc @ [c]) = Inr ((acc @ [c]) @ r)"
       "map (\<lambda>c. Some (cand_id c)) r = map doc_id (take (length es) (drop (Suc i) docs))"
       "map (\<lambda>c. Some (cand_content c)) r = map doc_content (take (length es) (drop (Suc i) docs))"
       "map cand_score r = map (cs q) es"
    by blast
  have split: "take (length (e # es)) (drop i docs) = docs ! i # take (length es) (drop (Suc i) docs)"
    using i by (simp add: Cons_nth_drop_Suc [symmetric])
  have "scan cs docs q i (e # es) acc = Inr (acc @ (c # r))"
    using c(1) r(1) by simp
  moreover have "map (\<lambda>c. Some (cand_id c)) (c # r) = map doc_id (take (length (e # es)) (drop i docs))"
    using c(2) r(2) split by simp
  moreover have "map (\<lambda>c. Some (cand_content c)) (c # r) = map doc_content (take (length (e # es)) (drop i docs))"
    using c(3) r(3) split by simp
  moreover have "map cand_score (c # r) = map (cs q) (e # es)"
    using c(4) r(4) by simp
  ultimately show ?case by blast
qed

lemma scan_scores:
  "scan cs docs q i es acc = Inr r \<Longrightarrow> \<exists>new. r = acc @ new \<and> map cand_score new = map (cs q) es"
proof (induction es arbitrary: i acc)
  case Nil
  then show ?case by simp
next
  case (Cons e es)
  from Cons.prems obtain c where
    c: "make_candidate docs i (cs q e) = Inr c" and
    rest: "scan cs docs q (Suc i) es (acc @ [c]) = Inr r"
    by (auto split: sum.splits)
  from c have sc: "cand_score c = cs q e"
    by (auto simp add: make_candidate_def split: if_splits option.splits)
  from Cons.IH [OF rest] obtain new where "r = (acc @ [c]) @ new" "map cand_score new = map (cs q) es"
    by blast
  with sc have "r = acc @ (c # new) \<and> map cand_score (c # new) = map (cs q) (e # es)" by simp
  then show ?case by blast
qed

subsection \<open>The sort\<close>

lemma mset_insert_sorted: "mset (insert_sorted x ys) = add_mset x (mset ys)"
  by (induction ys) auto

lemma mset_foldl_insert:
  "mset (foldl (\<lambda>sorted_prefix x. insert_sorted x sorted_prefix) acc xs) = mset acc + mset xs"
  by (induction xs arbitrary: acc) (auto simp add: mset_insert_sorted)

lemma mset_list_sort: "mset (list_sort xs) = mset xs"
  by (simp add: list_sort_def mset_foldl_insert)

lemma length_list_sort: "length (list_sort xs) = length xs"
  using mset_list_sort [of xs] by (metis size_mset)

lemma set_list_sort: "set (list_sort xs) = set xs"
  using mset_list_sort [of xs] by (metis set_mset_mset)

lemma key_lt_ranks:
  "key_lt (sorting_key x) (sorting_key y) \<Longrightarrow> ranks_before x y"
  by (cases "cand_score x"; cases "cand_score y")
     (auto simp add: key_lt_def sorting_key_def ranks_before_def split: if_splits)

lemma not_key_lt_ranks:
  "\<not> isnan (cand_score x) \<Longrightarrow> \<not> isnan (cand_score y) \<Longrightarrow>
   \<not> key_lt (sorting_key x) (sorting_key y) \<Longrightarrow> ranks_before y x"
  by (cases "cand_score x"; cases "cand_score y")
     (auto simp add: key_lt_def sorting_key_def ranks_before_def split: if_splits)

lemma ranks_before_trans:
  "ranks_before a b \<Longrightarrow> ranks_before b c \<Longrightarrow> ranks_before a c"
  by (cases "cand_score a"; cases "cand_score b"; cases "cand_score c")
     (auto simp add: ranks_before_def)

lemma set_insert_sorted: "set (insert_sorted x ys) = insert x (set ys)"
  using mset_insert_sorted [of x ys] by (metis set_mset_add_mset_insert set_mset_mset)

lemma sorted_insert_sorted:
  assumes "\<not> isnan (cand_score x)" and "\<forall>y \<in> set ys. \<not> isnan (cand_score y)"
    and "sorted_wrt ranks_before ys"
  shows "sorted_wrt ranks_before (insert_sorted x ys)"
  using assms(2,3)
proof (induction ys)
  case Nil
  then show ?case by simp
next
  case (Cons y ys)
  show ?case
  proof (cases "key_lt (sorting_key x) (sorting_key y)")
    case True
    then have xy: "ranks_before x y" by (rule key_lt_ranks)
    have "ranks_before x z" if "z \<in> set ys" for z
      using xy Cons.prems(2) that by (auto intro: ranks_before_trans)
    with xy True Cons.prems(2) show ?thesis by simp
  next
    case False
    with assms(1) Cons.prems(1) have "ranks_before y x"
      by (intro not_key_lt_ranks) simp_all
    moreover have "sorted_wrt ranks_before (insert_sorted x ys)"
      using Cons by simp
    ultimately show ?thesis
      using False Cons.prems(2) by (simp add: set_insert_sorted)
  qed
qed

lemma sorted_foldl_insert:
  assumes "\<forall>y \<in> set acc \<union> set xs. \<not> isnan (cand_score y)"
    and "sorted_wrt ranks_before acc"
  shows "sorted_wrt ranks_before (foldl (\<lambda>sorted_prefix x. insert_sorted x sorted_prefix) acc xs)"
  using assms
proof (induction xs arbitrary: acc)
  case Nil
  then show ?case by simp
next
  case (Cons x xs)
  have "sorted_wrt ranks_before (insert_sorted x acc)"
    using Cons.prems by (intro sorted_insert_sorted) simp_all
  moreover have "\<forall>y \<in> set (insert_sorted x acc) \<union> set xs. \<not> isnan (cand_score y)"
    using Cons.prems(1) by (auto simp add: set_insert_sorted)
  ultimately show ?case
    using Cons.IH [of "insert_sorted x acc"] by simp
qed

lemma sorted_list_sort:
  "\<forall>y \<in> set xs. \<not> isnan (cand_score y) \<Longrightarrow> sorted_wrt ranks_before (list_sort xs)"
  unfolding list_sort_def by (rule sorted_foldl_insert) simp_all

lemma sorted_wrt_slice_to: "sorted_wrt P xs \<Longrightarrow> sorted_wrt P (slice_to k xs)"
  by (simp add: slice_to_def sorted_wrt_take)

lemma length_slice_to_nonneg: "0 \<le> k \<Longrightarrow> length (slice_to k xs) = min (nat k) (length xs)"
  by (simp add: slice_to_def)

lemma length_slice_to_le: "length (slice_to k xs) \<le> length xs"
  by (auto simp add: slice_to_def)

text \<open>
  On candidates whose scores are numbers the model of \<^verbatim>\<open>list.sort\<close> is the stable
  sort of the library for the linear key.
\<close>

lemma key_lt_linear:
  "\<not> isnan (cand_score x) \<Longrightarrow> \<not> isnan (cand_score y) \<Longrightarrow>
   key_lt (sorting_key x) (sorting_key y) \<longleftrightarrow> linear_key x < linear_key y"
  by (cases "cand_score x"; cases "cand_score y")
     (auto simp add: key_lt_def sorting_key_def linear_key_def less_prod_def)

lemma insert_sorted_linear:
  assumes "\<not> isnan (cand_score x)" and "\<forall>y \<in> set ys. \<not> isnan (cand_score y)"
    and "sorted (map linear_key ys)"
  shows "sorted (map linear_key (insert_sorted x ys)) \<and>
         filter (\<lambda>c. linear_key c = r) (insert_sorted x ys) =
           filter (\<lambda>c. linear_key c = r) ys @ (if linear_key x = r then [x] else [])"
  using assms(2,3)
proof (induction ys)
  case Nil
  then show ?case by simp
next
  case (Cons y ys)
  have lt: "key_lt (sorting_key x) (sorting_key y) \<longleftrightarrow> linear_key x < linear_key y"
    using assms(1) Cons.prems(1) by (intro key_lt_linear) simp_all
  show ?case
  proof (cases "linear_key x < linear_key y")
    case True
    have above: "linear_key x < linear_key z" if "z \<in> set (y # ys)" for z
      using True Cons.prems(2) that by auto
    have "\<forall>z \<in> set (y # ys). linear_key z \<noteq> linear_key x"
      using above by (metis less_irrefl)
    then have "filter (\<lambda>c. linear_key c = linear_key x) (y # ys) = []"
      by (simp add: filter_empty_conv)
    moreover have "sorted (map linear_key (x # y # ys))"
      using above Cons.prems(2) by (auto simp add: less_imp_le)
    ultimately show ?thesis
      using True lt by auto
  next
    case False
    then have le: "linear_key y \<le> linear_key x" by simp
    from Cons have IH:
      "sorted (map linear_key (insert_sorted x ys))"
      "filter (\<lambda>c. linear_key c = r) (insert_sorted x ys) =
         filter (\<lambda>c. linear_key c = r) ys @ (if linear_key x = r then [x] else [])"
      by simp_all
    have "sorted (map linear_key (y # insert_sorted x ys))"
      using IH(1) le Cons.prems(2) by (auto simp add: set_insert_sorted)
    with IH(2) False lt show ?thesis by simp
  qed
qed

lemma foldl_insert_linear:
  assumes "\<forall>y \<in> set acc \<union> set xs. \<not> isnan (cand_score y)"
    and "sorted (map linear_key acc)"
  shows "sorted (map linear_key (foldl (\<lambda>sorted_prefix x. insert_sorted x sorted_prefix) acc xs)) \<and>
         filter (\<lambda>c. linear_key c = r)
           (foldl (\<lambda>sorted_prefix x. insert_sorted x sorted_prefix) acc xs) =
         filter (\<lambda>c. linear_key c = r) acc @ filter (\<lambda>c. linear_key c = r) xs"
  using assms
proof (induction xs arbitrary: acc)
  case Nil
  then show ?case by simp
next
  case (Cons x xs)
  have step: "sorted (map linear_key (insert_sorted x acc))"
    "filter (\<lambda>c. linear_key c = r) (insert_sorted x acc) =
       filter (\<lambda>c. linear_key c = r) acc @ (if linear_key x = r then [x] else [])"
    using insert_sorted_linear [of x acc r] Cons.prems by simp_all
  have "\<forall>y \<in> set (insert_sorted x acc) \<union> set xs. \<not> isnan (cand_score y)"
    using Cons.prems(1) by (auto simp add: set_insert_sorted)
  from Cons.IH [OF this step(1)] step(2) show ?case by simp
qed

lemma list_sort_is_stable_sort:
  assumes "\<forall>y \<in> set xs. \<not> isnan (cand_score y)"
  shows "list_sort xs = sort_key linear_key xs"
proof (rule properties_for_sort_key [symmetric])
  show "mset (list_sort xs) = mset xs" by (rule mset_list_sort)
next
  fix k
  have "filter (\<lambda>c. linear_key c = linear_key k) (list_sort xs) =
        filter (\<lambda>c. linear_key c = linear_key k) xs"
    using foldl_insert_linear [of "[]" xs "linear_key k"] assms by (simp add: list_sort_def)
  then show "filter (\<lambda>x. linear_key k = linear_key x) (list_sort xs) =
        filter (\<lambda>x. linear_key k = linear_key x) xs"
    by (simp add: eq_commute)
next
  show "sorted (map linear_key (list_sort xs))"
    using foldl_insert_linear [of "[]" xs undefined] assms by (simp add: list_sort_def)
qed

subsection \<open>Normalisation of scores\<close>

lemma round_half_even_near: "\<bar>of_int (round_half_even x) - x\<bar> \<le> 1 / 2"
proof -
  have "of_int \<lfloor>x\<rfloor> \<le> x" "x < of_int \<lfloor>x\<rfloor> + 1" by linarith+
  then show ?thesis
    by (auto simp add: round_half_even_def Let_def)
qed

lemma round_half_even_lower: "0 \<le> x \<Longrightarrow> 0 \<le> round_half_even x"
proof -
  assume "0 \<le> x"
  then have "0 \<le> \<lfloor>x\<rfloor>" by simp
  then show ?thesis by (auto simp add: round_half_even_def Let_def)
qed

lemma round_half_even_upper:
  assumes "x \<le> of_int n"
  shows "round_half_even x \<le> n"
proof (cases "x = of_int n")
  case True
  then show ?thesis by (simp add: round_half_even_def)
next
  case False
  with assms have lt: "x < of_int n" by simp
  then have fl: "\<lfloor>x\<rfloor> < n" by (simp add: floor_less_iff)
  then have "\<lfloor>x\<rfloor> + 1 \<le> n" by simp
  with fl show ?thesis by (auto simp add: round_half_even_def Let_def)
qed

lemma clamp_is_spec_clamped:
  "py_max (Fin 0) (py_min (Fin 1)
      (if isnan (py_or (dict_get held (Fin 0)) (Fin 0)) then Fin 0
       else py_or (dict_get held (Fin 0)) (Fin 0))) = Fin (spec_clamped held)"
proof (cases held)
  case None
  then show ?thesis by (simp add: dict_get_def py_or_def py_min_def py_max_def)
next
  case (Some v)
  then show ?thesis
    by (cases v) (auto simp add: dict_get_def py_or_def py_min_def py_max_def)
qed

lemma normalize_score_spec:
  "normalize_score held = Fin (of_int (round_half_even (spec_clamped held * 10000)) / 10000)"
  by (simp add: normalize_score_def Let_def clamp_is_spec_clamped)

lemma spec_clamped_range: "0 \<le> spec_clamped held \<and> spec_clamped held \<le> 1"
proof (cases held)
  case None
  then show ?thesis by simp
next
  case (Some v)
  then show ?thesis by (cases v) auto
qed

lemma normalize_score_range:
  "\<exists>n::int. normalize_score held = Fin (of_int n / 10000) \<and> 0 \<le> n \<and> n \<le> 10000 \<and>
      \<bar>of_int n / 10000 - spec_clamped held\<bar> \<le> 1 / 20000"
proof -
  let ?x = "spec_clamped held * 10000"
  let ?n = "round_half_even ?x"
  have "0 \<le> ?x" using spec_clamped_range [of held] by simp
  then have lo: "0 \<le> ?n" by (rule round_half_even_lower)
  have "?x \<le> of_int 10000" using spec_clamped_range [of held] by simp
  then have hi: "?n \<le> 10000" by (rule round_half_even_upper)
  have "\<bar>of_int ?n - ?x\<bar> \<le> 1 / 2" by (rule round_half_even_near)
  then have "\<bar>of_int ?n / 10000 - spec_clamped held\<bar> \<le> 1 / 20000"
    by (simp add: abs_le_iff field_simps)
  with lo hi normalize_score_spec [of held] show ?thesis by blast
qed

lemma score_of_format_result:
  "dict_lookup (format_result c) ''score'' = Some (JFloat (normalize_score (Some (cand_score c))))"
  by (simp add: format_result_def)

subsection \<open>The empty query\<close>

text \<open>
  Claim C4. For a query that is empty or consists of whitespace only, \<^verbatim>\<open>search\<close>
  returns at once: no results, \<open>reranked\<close> false, a latency of 0 and \<open>totalDocs\<close> the
  number of documents. The embedding generator is not called: the outside state and the
  engine come back as they were, whatever the collaborators are.
\<close>

theorem search_empty_query:
  assumes "query = [] \<or> (\<forall>c \<in> set query. isspace c)"
  shows "search col start_time end_time query k rerank rerank_k (self, w) =
           (Inr (JDict [(''results'', JList []),
                        (''reranked'', JBool False),
                        (''metrics'',
                           JDict [(''latency'', JInt 0),
                                  (''totalDocs'', JInt (int (length (documents self))))])]),
            self, w)"
proof -
  from assms have "query = [] \<or> strip query = []"
    by (simp add: strip_empty_iff)
  then show ?thesis
    by (auto simp add: search_def make_response_def)
qed

theorem search_empty_query_witness:
  "list_all isspace ''  '' \<and>
   search counting_double 0 (1 / 4) ''  '' 5 True 3 (example_engine, 0) =
     (Inr (JDict [(''results'', JList []),
                  (''reranked'', JBool False),
                  (''metrics'', JDict [(''latency'', JInt 0), (''totalDocs'', JInt 3)])]),
      example_engine, 0)"
  using search_empty_query [where query = "''  ''" and col = counting_double
      and start_time = 0 and end_time = "1 / 4" and k = 5 and rerank = True
      and rerank_k = 3 and self = example_engine and w = 0]
  by (simp add: isspace_def example_engine_def example_documents_def list_all_iff)

subsection \<open>The order of the candidates\<close>

lemma ranks_strict:
  "ranks_before a b \<Longrightarrow> cand_id a \<noteq> cand_id b \<Longrightarrow> ranks_strictly_before a b"
  by (auto simp add: ranks_before_def ranks_strictly_before_def)

lemma sorted_wrt_strict:
  assumes "sorted_wrt ranks_before xs" and "distinct (map cand_id xs)"
  shows "sorted_wrt ranks_strictly_before xs"
proof -
  have "ranks_strictly_before (xs ! i) (xs ! j)" if "i < j" "j < length xs" for i j
  proof -
    from assms(1) that have "ranks_before (xs ! i) (xs ! j)"
      by (simp add: sorted_wrt_iff_nth_less)
    moreover from assms(2) that have "cand_id (xs ! i) \<noteq> cand_id (xs ! j)"
      by (simp add: distinct_conv_nth)
    ultimately show ?thesis by (rule ranks_strict)
  qed
  then show ?thesis by (simp add: sorted_wrt_iff_nth_less)
qed

text \<open>
  Claim C1, amended. When every similarity is a number, the list returned by
  \<^verbatim>\<open>vector_search\<close> is in descending order of score, candidates of equal score in
  ascending order of identifier: every candidate of the list ranks before every later
  one. When the identifiers are distinct the order is strict, so the position of every
  candidate is fixed by the scores and the identifiers alone. The result is a function of
  the corpus, the embeddings and the query vector, so two calls with the same three
  return the same list. A similarity that is NaN is neither smaller nor greater than any
  score; the sort leaves such a candidate where the comparisons that it makes put it.
  The counterexample is a corpus of two documents, one with a NaN in its embedding: the
  two candidates are returned in the order of the corpus, whichever it is, the NaN in
  front of the score 1 for one order.
\<close>

theorem vector_search_sorted:
  assumes "vector_search col self qv k = Inr cands"
    and "\<forall>e \<in> set (embeddings self). \<not> isnan (cosine_similarity col qv e)"
  shows "sorted_wrt ranks_before cands \<and>
         (distinct (map cand_id cands) \<longrightarrow> sorted_wrt ranks_strictly_before cands)"
proof -
  from assms(1) obtain sims where
    sims: "scan (cosine_similarity col) (documents self) qv 0 (embeddings self) [] = Inr sims"
    and cands: "cands = slice_to k (list_sort sims)"
    by (auto simp add: vector_search_def split: sum.splits)
  from scan_scores [OF sims] have
    "map cand_score sims = map (cosine_similarity col qv) (embeddings self)"
    by simp
  then have img: "cand_score ` set sims = cosine_similarity col qv ` set (embeddings self)"
    by (metis list.set_map)
  have "\<forall>c \<in> set sims. \<not> isnan (cand_score c)"
  proof
    fix c
    assume "c \<in> set sims"
    then have "cand_score c \<in> cosine_similarity col qv ` set (embeddings self)"
      using img by blast
    with assms(2) show "\<not> isnan (cand_score c)" by auto
  qed
  then have "sorted_wrt ranks_before (list_sort sims)"
    by (rule sorted_list_sort)
  then have sorted: "sorted_wrt ranks_before cands"
    unfolding cands by (rule sorted_wrt_slice_to)
  then show ?thesis
    by (simp add: sorted_wrt_strict)
qed

theorem vector_search_sorted_witness:
  "vector_search counting_double example_engine [Fin 1, Fin 0] 3 =
     Inr [\<lparr>cand_id = 2, cand_score = Fin 1, cand_content = ''beta'', cand_title = [],
           cand_source = ''web''\<rparr>,
          \<lparr>cand_id = 1, cand_score = Fin (3 / 5), cand_content = ''alpha'', cand_title = ''A'',
           cand_source = []\<rparr>,
          \<lparr>cand_id = 3, cand_score = Fin 0, cand_content = ''gamma'', cand_title = [],
           cand_source = []\<rparr>] \<and>
   list_all (\<lambda>e. \<not> isnan (cosine_similarity counting_double [Fin 1, Fin 0] e))
     (embeddings example_engine) \<and>
   sorted_wrt ranks_before
     [\<lparr>cand_id = 2, cand_score = Fin 1, cand_content = ''beta'', cand_title = [],
       cand_source = ''web''\<rparr>,
      \<lparr>cand_id = 1, cand_score = Fin (3 / 5), cand_content = ''alpha'', cand_title = ''A'',
       cand_source = []\<rparr>,
      \<lparr>cand_id = 3, cand_score = Fin 0, cand_content = ''gamma'', cand_title = [],
       cand_source = []\<rparr>]"
proof -
  have run: "vector_search counting_double example_engine [Fin 1, Fin 0] 3 =
     Inr [\<lparr>cand_id = 2, cand_score = Fin 1, cand_content = ''beta'', cand_title = [],
           cand_source = ''web''\<rparr>,
          \<lparr>cand_id = 1, cand_score = Fin (3 / 5), cand_content = ''alpha'', cand_title = ''A'',
           cand_source = []\<rparr>,
          \<lparr>cand_id = 3, cand_score = Fin 0, cand_content = ''gamma'', cand_title = [],
           cand_source = []\<rparr>]"
    by (simp add: example_defs model_defs)
  have numbers: "\<forall>e \<in> set (embeddings example_engine).
      \<not> isnan (cosine_similarity counting_double [Fin 1, Fin 0] e)"
    by (simp add: example_defs)
  from vector_search_sorted [OF run numbers] run numbers show ?thesis
    by (simp add: list_all_iff)
qed

theorem vector_search_sorted_counterexample:
  "vector_search counting_double nan_first_engine [Fin 1, Fin 0] 5 =
     Inr [\<lparr>cand_id = 1, cand_score = NaN, cand_content = ''alpha'', cand_title = [],
           cand_source = []\<rparr>,
          \<lparr>cand_id = 2, cand_score = Fin 1, cand_content = ''beta'', cand_title = [],
           cand_source = []\<rparr>] \<and>
   \<not> sorted_wrt ranks_before
     (projr (vector_search counting_double nan_first_engine [Fin 1, Fin 0] 5)) \<and>
   vector_search counting_double nan_last_engine [Fin 1, Fin 0] 5 =
     Inr [\<lparr>cand_id = 2, cand_score = Fin 1, cand_content = ''beta'', cand_title = [],
           cand_source = []\<rparr>,
          \<lparr>cand_id = 1, cand_score = NaN, cand_content = ''alpha'', cand_title = [],
           cand_source = []\<rparr>]"
  by (simp add: example_defs model_defs ranks_before_def)

subsection \<open>The scores of the results\<close>

text \<open>
  Claim C2. On a query that is not blank, once the embedding generator and the vector
  search have returned, \<^verbatim>\<open>search\<close> returns a response, whatever the scores of the
  candidates are. The score of every result is a multiple of \<open>1/10000\<close> between 0 and 1,
  and it is a nearest such multiple of the candidate's score clamped into the interval
  from 0 to 1, where a NaN counts as 0. The expression that computes it does the same for
  a candidate without a score, which counts as 0 as well.
\<close>

theorem search_scores_normalized:
  assumes "\<exists>c \<in> set query. \<not> isspace c"
    and "get_embedding col query w = (Inr qv, w1)"
    and "vector_search col self qv k = Inr cands"
  shows "(\<exists>resp. search col t0 t1 query k rerank rk (self, w) = (Inr resp, self, w1) \<and>
            length (response_results resp) = length (slice_to (if rerank then rk else k) cands) \<and>
            (\<forall>i < length (response_results resp).
               \<exists>n::int.
                 dict_lookup (response_results resp ! i) ''score'' =
                   Some (JFloat (Fin (of_int n / 10000))) \<and>
                 0 \<le> n \<and> n \<le> 10000 \<and>
                 \<bar>of_int n / 10000 -
                    spec_clamped (Some (cand_score (slice_to (if rerank then rk else k) cands ! i)))\<bar>
                   \<le> 1 / 20000)) \<and>
         (\<forall>held. \<exists>n::int.
            normalize_score held = Fin (of_int n / 10000) \<and> 0 \<le> n \<and> n \<le> 10000 \<and>
            \<bar>of_int n / 10000 - spec_clamped held\<bar> \<le> 1 / 20000)"
proof -
  let ?kept = "slice_to (if rerank then rk else k) cands"
  let ?resp = "make_response (map format_result ?kept) rerank (py_int ((t1 - t0) * 1000))
                 (length (documents self))"
  have run: "search col t0 t1 query k rerank rk (self, w) = (Inr ?resp, self, w1)"
    using assms by (rule search_returns)
  have res: "response_results ?resp = map format_result ?kept"
    by simp
  have each: "\<exists>n::int.
        dict_lookup (response_results ?resp ! i) ''score'' = Some (JFloat (Fin (of_int n / 10000))) \<and>
        0 \<le> n \<and> n \<le> 10000 \<and>
        \<bar>of_int n / 10000 - spec_clamped (Some (cand_score (?kept ! i)))\<bar> \<le> 1 / 20000"
    if "i < length (response_results ?resp)" for i
  proof -
    from that have i: "i < length ?kept" by (simp only: res length_map)
    then have "response_results ?resp ! i = format_result (?kept ! i)"
      by (simp only: res nth_map)
    then have "dict_lookup (response_results ?resp ! i) ''score'' =
                 Some (JFloat (normalize_score (Some (cand_score (?kept ! i)))))"
      by (simp only: score_of_format_result)
    with normalize_score_range [of "Some (cand_score (?kept ! i))"] show ?thesis
      by auto
  qed
  have len: "length (response_results ?resp) = length ?kept"
    by (simp only: res length_map)
  from run len each have
    "\<exists>resp. search col t0 t1 query k rerank rk (self, w) = (Inr resp, self, w1) \<and>
            length (response_results resp) = length ?kept \<and>
            (\<forall>i < length (response_results resp).
               \<exists>n::int.
                 dict_lookup (response_results resp ! i) ''score'' =
                   Some (JFloat (Fin (of_int n / 10000))) \<and>
                 0 \<le> n \<and> n \<le> 10000 \<and>
                 \<bar>of_int n / 10000 - spec_clamped (Some (cand_score (?kept ! i)))\<bar> \<le> 1 / 20000)"
    by blast
  moreover have "\<forall>held. \<exists>n::int.
            normalize_score held = Fin (of_int n / 10000) \<and> 0 \<le> n \<and> n \<le> 10000 \<and>
            \<bar>of_int n / 10000 - spec_clamped held\<bar> \<le> 1 / 20000"
    using normalize_score_range by blast
  ultimately show ?thesis by blast
qed

lemma injected_run:
  "vector_search injecting_double injected_engine [Fin 1, Fin 0] 5 =
     Inr [\<lparr>cand_id = 7, cand_score = NaN, cand_content = ''eta'', cand_title = [],
           cand_source = []\<rparr>]"
  by (simp add: example_defs model_defs)

theorem search_scores_normalized_witness:
  "(\<exists>c \<in> set ''cats''. \<not> isspace c) \<and>
   get_embedding injecting_double ''cats'' 0 = (Inr [Fin 1, Fin 0], 1) \<and>
   vector_search injecting_double injected_engine [Fin 1, Fin 0] 5 =
     Inr [\<lparr>cand_id = 7, cand_score = NaN, cand_content = ''eta'', cand_title = [],
           cand_source = []\<rparr>] \<and>
   search injecting_double 0 (1 / 4) ''cats'' 5 True 3 (injected_engine, 0) =
     (Inr (JDict [(''results'',
                   JList [JDict [(''id'', JInt 7), (''score'', JFloat (Fin 0)),
                                 (''content'', JStr ''eta''),
                                 (''metadata'',
                                    JDict [(''title'', JStr []), (''source'', JStr [])])]]),
                  (''reranked'', JBool True),
                  (''metrics'', JDict [(''latency'', JInt 250), (''totalDocs'', JInt 1)])]),
      injected_engine, 1) \<and>
   map (\<lambda>r. dict_lookup r ''score'')
     (response_results
        (projr (fst (search injecting_double 0 (1 / 4) ''cats'' 5 False 3
                       (out_of_range_engine, 0))))) =
     [Some (JFloat (Fin 1)), Some (JFloat (Fin (1235 / 10000))), Some (JFloat (Fin 0))] \<and>
   (\<exists>n::int. normalize_score (Some NaN) = Fin (of_int n / 10000) \<and> 0 \<le> n \<and> n \<le> 10000 \<and>
       \<bar>of_int n / 10000 - spec_clamped (Some NaN)\<bar> \<le> 1 / 20000) \<and>
   (\<exists>n::int. normalize_score None = Fin (of_int n / 10000) \<and> 0 \<le> n \<and> n \<le> 10000 \<and>
       \<bar>of_int n / 10000 - spec_clamped None\<bar> \<le> 1 / 20000)"
proof -
  have h1: "\<exists>c \<in> set ''cats''. \<not> isspace c"
    by (simp add: isspace_def)
  have h2: "get_embedding injecting_double ''cats'' 0 = (Inr [Fin 1, Fin 0], 1)"
    by (simp add: example_defs)
  note h3 = injected_run
  have run: "search injecting_double 0 (1 / 4) ''cats'' 5 True 3 (injected_engine, 0) =
     (Inr (JDict [(''results'',
                   JList [JDict [(''id'', JInt 7), (''score'', JFloat (Fin 0)),
                                 (''content'', JStr ''eta''),
                                 (''metadata'',
                                    JDict [(''title'', JStr []), (''source'', JStr [])])]]),
                  (''reranked'', JBool True),
                  (''metrics'', JDict [(''latency'', JInt 250), (''totalDocs'', JInt 1)])]),
      injected_engine, 1)"
    by (simp add: example_defs model_defs)
  have clamp: "map (\<lambda>r. dict_lookup r ''score'')
     (response_results
        (projr (fst (search injecting_double 0 (1 / 4) ''cats'' 5 False 3
                       (out_of_range_engine, 0))))) =
     [Some (JFloat (Fin 1)), Some (JFloat (Fin (1235 / 10000))), Some (JFloat (Fin 0))]"
    by code_simp
  from search_scores_normalized [OF h1 h2 h3, of 0 "1 / 4" True 3]
  have "\<forall>held. \<exists>n::int.
            normalize_score held = Fin (of_int n / 10000) \<and> 0 \<le> n \<and> n \<le> 10000 \<and>
            \<bar>of_int n / 10000 - spec_clamped held\<bar> \<le> 1 / 20000"
    by blast
  with h1 h2 h3 run clamp show ?thesis by blast
qed

subsection \<open>Totality of the vector search\<close>

lemma vector_search_Inr_iff:
  "vector_search col self qv k = Inr cands \<longleftrightarrow>
     (\<exists>sims. scan (cosine_similarity col) (documents self) qv 0 (embeddings self) [] = Inr sims \<and>
            cands = slice_to k (list_sort sims))"
  by (auto simp add: vector_search_def split: sum.splits)

lemma vector_search_Inl_iff:
  "vector_search col self qv k = Inl err \<longleftrightarrow>
     scan (cosine_similarity col) (documents self) qv 0 (embeddings self) [] = Inl err"
  by (auto simp add: vector_search_def split: sum.splits)

text \<open>
  Claim C9. The loop of \<^verbatim>\<open>vector_search\<close> reads \<^verbatim>\<open>self.documents[i]\<close> for every
  index \<open>i\<close> of the embeddings. With at most as many embeddings as documents it never
  raises IndexError, and with more embeddings than documents it never returns. On
  documents that all have an identifier and a content it returns exactly when there are
  at most as many embeddings as documents and raises IndexError otherwise. With as many
  embeddings as documents the list built by the loop holds, at every position, the
  identifier and the content of the document at that position with the similarity of the
  embedding at that position, and the sorted list is a rearrangement of it: every
  document is scored once.
\<close>

theorem vector_search_total:
  "(length (embeddings self) \<le> length (documents self) \<longrightarrow>
      vector_search col self qv k \<noteq> Inl IndexError) \<and>
   (length (documents self) < length (embeddings self) \<longrightarrow>
      (\<exists>err. vector_search col self qv k = Inl err)) \<and>
   ((\<forall>d \<in> set (documents self). well_formed d) \<longrightarrow>
      ((\<exists>cands. vector_search col self qv k = Inr cands) \<longleftrightarrow>
         length (embeddings self) \<le> length (documents self)) \<and>
      (length (documents self) < length (embeddings self) \<longrightarrow>
         vector_search col self qv k = Inl IndexError) \<and>
      (length (embeddings self) = length (documents self) \<longrightarrow>
         (\<exists>sims.
            scan (cosine_similarity col) (documents self) qv 0 (embeddings self) [] = Inr sims \<and>
            map (\<lambda>c. Some (cand_id c)) sims = map doc_id (documents self) \<and>
            map (\<lambda>c. Some (cand_content c)) sims = map doc_content (documents self) \<and>
            map cand_score sims = map (cosine_similarity col qv) (embeddings self) \<and>
            vector_search col self qv k = Inr (slice_to k (list_sort sims)) \<and>
            mset (list_sort sims) = mset sims)))"
proof -
  let ?cs = "cosine_similarity col" and ?docs = "documents self" and ?embs = "embeddings self"
  have no_index: "vector_search col self qv k \<noteq> Inl IndexError"
    if "length ?embs \<le> length ?docs"
  proof -
    from that have "scan ?cs ?docs qv 0 ?embs [] \<noteq> Inl IndexError"
      by (intro scan_no_index_error) simp
    then show ?thesis by (simp add: vector_search_Inl_iff)
  qed
  have raises: "\<exists>err. vector_search col self qv k = Inl err"
    if "length ?docs < length ?embs"
  proof -
    from that have "\<exists>err. scan ?cs ?docs qv 0 ?embs [] = Inl err"
      by (intro scan_too_long) simp_all
    then show ?thesis by (simp add: vector_search_Inl_iff)
  qed
  have wf_part:
    "((\<exists>cands. vector_search col self qv k = Inr cands) \<longleftrightarrow> length ?embs \<le> length ?docs) \<and>
     (length ?docs < length ?embs \<longrightarrow> vector_search col self qv k = Inl IndexError) \<and>
     (length ?embs = length ?docs \<longrightarrow>
        (\<exists>sims.
           scan ?cs ?docs qv 0 ?embs [] = Inr sims \<and>
           map (\<lambda>c. Some (cand_id c)) sims = map doc_id ?docs \<and>
           map (\<lambda>c. Some (cand_content c)) sims = map doc_content ?docs \<and>
           map cand_score sims = map (?cs qv) ?embs \<and>
           vector_search col self qv k = Inr (slice_to k (list_sort sims)) \<and>
           mset (list_sort sims) = mset sims))"
    if wf: "\<forall>d \<in> set ?docs. well_formed d"
  proof (intro conjI impI)
    show "(\<exists>cands. vector_search col self qv k = Inr cands) \<longleftrightarrow> length ?embs \<le> length ?docs"
    proof
      assume "\<exists>cands. vector_search col self qv k = Inr cands"
      then obtain sims where "scan ?cs ?docs qv 0 ?embs [] = Inr sims"
        by (auto simp add: vector_search_Inr_iff)
      from scan_length [OF this] show "length ?embs \<le> length ?docs" by simp
    next
      assume "length ?embs \<le> length ?docs"
      then have "0 + length ?embs \<le> length ?docs" by simp
      from scan_well_formed [OF wf this, of ?cs qv "[]"] obtain r where
        "scan ?cs ?docs qv 0 ?embs [] = Inr ([] @ r)" by blast
      then show "\<exists>cands. vector_search col self qv k = Inr cands"
        by (simp add: vector_search_Inr_iff)
    qed
  next
    assume "length ?docs < length ?embs"
    then have "scan ?cs ?docs qv 0 ?embs [] = Inl IndexError"
      by (intro scan_index_error [OF wf]) simp_all
    then show "vector_search col self qv k = Inl IndexError"
      by (simp add: vector_search_Inl_iff)
  next
    assume eq: "length ?embs = length ?docs"
    then have "0 + length ?embs \<le> length ?docs" by simp
    from scan_well_formed [OF wf this, of ?cs qv "[]"] obtain r where
      r: "scan ?cs ?docs qv 0 ?embs [] = Inr ([] @ r)"
         "map (\<lambda>c. Some (cand_id c)) r = map doc_id (take (length ?embs) (drop 0 ?docs))"
         "map (\<lambda>c. Some (cand_content c)) r = map doc_content (take (length ?embs) (drop 0 ?docs))"
         "map cand_score r = map (?cs qv) ?embs"
      by blast
    have all: "take (length ?embs) (drop 0 ?docs) = ?docs" using eq by simp
    have "scan ?cs ?docs qv 0 ?embs [] = Inr r" using r(1) by simp
    moreover have "map (\<lambda>c. Some (cand_id c)) r = map doc_id ?docs"
      using r(2) all by simp
    moreover have "map (\<lambda>c. Some (cand_content c)) r = map doc_content ?docs"
      using r(3) all by simp
    moreover have "vector_search col self qv k = Inr (slice_to k (list_sort r))"
      using r(1) by (simp add: vector_search_Inr_iff)
    moreover have "mset (list_sort r) = mset r" by (rule mset_list_sort)
    ultimately show "\<exists>sims.
           scan ?cs ?docs qv 0 ?embs [] = Inr sims \<and>
           map (\<lambda>c. Some (cand_id c)) sims = map doc_id ?docs \<and>
           map (\<lambda>c. Some (cand_content c)) sims = map doc_content ?docs \<and>
           map cand_score sims = map (?cs qv) ?embs \<and>
           vector_search col self qv k = Inr (slice_to k (list_sort sims)) \<and>
           mset (list_sort sims) = mset sims"
      using r(4) by blast
  qed
  from no_index raises wf_part show ?thesis by blast
qed

theorem vector_search_total_witness:
  "length (embeddings example_engine) \<le> length (documents example_engine) \<and>
   length (embeddings example_engine) = length (documents example_engine) \<and>
   list_all well_formed (documents example_engine) \<and>
   vector_search counting_double example_engine [Fin 1, Fin 0] 3 \<noteq> Inl IndexError \<and>
   (\<exists>cands. vector_search counting_double example_engine [Fin 1, Fin 0] 3 = Inr cands) \<and>
   (\<exists>sims.
      scan (cosine_similarity counting_double) (documents example_engine) [Fin 1, Fin 0] 0
        (embeddings example_engine) [] = Inr sims \<and>
      map (\<lambda>c. Some (cand_id c)) sims = map doc_id (documents example_engine) \<and>
      mset (list_sort sims) = mset sims) \<and>
   length (documents overlong_engine) < length (embeddings overlong_engine) \<and>
   list_all well_formed (documents overlong_engine) \<and>
   vector_search counting_double overlong_engine [Fin 1, Fin 0] 3 = Inl IndexError"
proof -
  have a: "length (embeddings example_engine) \<le> length (documents example_engine)"
    and b: "length (embeddings example_engine) = length (documents example_engine)"
    and c: "\<forall>d \<in> set (documents example_engine). well_formed d"
    by (simp_all add: example_defs well_formed_def)
  have d: "length (documents overlong_engine) < length (embeddings overlong_engine)"
    and e: "\<forall>d \<in> set (documents overlong_engine). well_formed d"
    by (simp_all add: example_defs well_formed_def)
  from vector_search_total [of example_engine counting_double "[Fin 1, Fin 0]" 3]
    vector_search_total [of overlong_engine counting_double "[Fin 1, Fin 0]" 3]
    a b c d e
  show ?thesis unfolding list_all_iff by blast
qed

subsection \<open>The number of results\<close>

lemma vector_search_length:
  assumes "vector_search col self qv k = Inr cands"
  shows "length cands \<le> length (documents self) \<and> (0 \<le> k \<longrightarrow> int (length cands) \<le> k)"
proof -
  from assms obtain sims where
    sims: "scan (cosine_similarity col) (documents self) qv 0 (embeddings self) [] = Inr sims"
    and cands: "cands = slice_to k (list_sort sims)"
    by (auto simp add: vector_search_Inr_iff)
  from scan_length [OF sims] have "length sims \<le> length (documents self)" by simp
  moreover have "length cands \<le> length sims"
    unfolding cands using length_slice_to_le [of k "list_sort sims"] by (simp add: length_list_sort)
  moreover have "0 \<le> k \<longrightarrow> int (length cands) \<le> k"
    unfolding cands by (auto simp add: length_slice_to_nonneg)
  ultimately show ?thesis by simp
qed

text \<open>
  Claim C3. Every response of \<^verbatim>\<open>search\<close> holds at most
  \<open>min(k, rerank_k if rerank else k, totalDocs)\<close> results. The public contract
  declares \<open>k\<close> and \<open>rerank_k\<close> as integers that are not negative, and the claim is
  about these calls: the theorem asks for \<open>k\<close> not negative, and for \<open>rerank_k\<close> not
  negative only when \<open>rerank\<close> is set. It holds for the blank query as well, whose
  response has no results.
\<close>

theorem results_bound:
  assumes "search col t0 t1 query k rerank rk (self, w) = (Inr resp, st')"
    and "0 \<le> k"
    and "rerank \<longrightarrow> 0 \<le> rk"
  shows "int (length (response_results resp)) \<le>
           min k (min (if rerank then rk else k) (int (length (documents self))))"
proof -
  consider (blank) "query = [] \<or> (\<forall>c \<in> set query. isspace c)"
    | (asks) "\<exists>c \<in> set query. \<not> isspace c"
    by blast
  then show ?thesis
  proof cases
    case blank
    then have "query = [] \<or> strip query = []" by (simp add: strip_empty_iff)
    with assms(1) have "resp = make_response [] False 0 (length (documents self))"
      by (auto simp add: search_def)
    then have "response_results resp = []" by simp
    with assms(2,3) show ?thesis by simp
  next
    case asks
    from search_inversion [OF assms(1) asks] obtain qv w1 cands where
      vs: "vector_search col self qv k = Inr cands" and
      resp: "resp = make_response (map format_result (slice_to (if rerank then rk else k) cands))
                      rerank (py_int ((t1 - t0) * 1000)) (length (documents self))"
      by blast
    let ?m = "if rerank then rk else k"
    from assms(2,3) have m: "0 \<le> ?m" by simp
    from vector_search_length [OF vs] assms(2) have
      c: "length cands \<le> length (documents self)" "int (length cands) \<le> k"
      by simp_all
    have "length (response_results resp) = min (nat ?m) (length cands)"
      unfolding resp using m by (simp add: length_slice_to_nonneg)
    with c m show ?thesis by auto
  qed
qed

theorem results_bound_witness:
  "search counting_double 0 (1 / 4) ''cats'' 5 True 2 (example_engine, 0) =
     (Inr (JDict [(''results'',
                   JList [JDict [(''id'', JInt 2), (''score'', JFloat (Fin 1)),
                                 (''content'', JStr ''beta''),
                                 (''metadata'',
                                    JDict [(''title'', JStr []), (''source'', JStr ''web'')])],
                          JDict [(''id'', JInt 1), (''score'', JFloat (Fin (3 / 5))),
                                 (''content'', JStr ''alpha''),
                                 (''metadata'',
                                    JDict [(''title'', JStr ''A''), (''source'', JStr [])])]]),
                  (''reranked'', JBool True),
                  (''metrics'', JDict [(''latency'', JInt 250), (''totalDocs'', JInt 3)])]),
      example_engine, 1) \<and>
   (0::int) \<le> 5 \<and> (0::int) \<le> 2 \<and>
   int (length (response_results
      (projr (fst (search counting_double 0 (1 / 4) ''cats'' 5 True 2 (example_engine, 0)))))) \<le>
     min 5 (min (if True then 2 else 5) (int (length (documents example_engine))))"
proof -
  have run: "search counting_double 0 (1 / 4) ''cats'' 5 True 2 (example_engine, 0) =
     (Inr (JDict [(''results'',
                   JList [JDict [(''id'', JInt 2), (''score'', JFloat (Fin 1)),
                                 (''content'', JStr ''beta''),
                                 (''metadata'',
                                    JDict [(''title'', JStr []), (''source'', JStr ''web'')])],
                          JDict [(''id'', JInt 1), (''score'', JFloat (Fin (3 / 5))),
                                 (''content'', JStr ''alpha''),
                                 (''metadata'',
                                    JDict [(''title'', JStr ''A''), (''source'', JStr [])])]]),
                  (''reranked'', JBool True),
                  (''metrics'', JDict [(''latency'', JInt 250), (''totalDocs'', JInt 3)])]),
      example_engine, 1)"
    by code_simp
  have k: "(0::int) \<le> 5" and rk: "True \<longrightarrow> (0::int) \<le> 2" by simp_all
  from results_bound [OF run k rk] run show ?thesis by simp
qed

subsection \<open>Re-ranking\<close>

lemma reranked_make_response:
  "dict_lookup (make_response rs b l n) ''reranked'' = Some (JBool b)"
  by (simp add: make_response_def)

text \<open>
  Claim C5. In every response to a query that is not blank the field \<open>reranked\<close> is
  the argument \<open>rerank\<close>. When \<open>rerank\<close> is set the results are the formatted
  candidates of the slice \<^verbatim>\<open>candidates[:rerank_k]\<close> of the list that
  \<^verbatim>\<open>vector_search\<close> returned, in its order, which for \<open>rerank_k\<close> not negative are
  its first \<open>rerank_k\<close> candidates, and the response reports \<open>reranked\<close> as true. The
  outside state is the one the embedding generator left: nothing else was called.
\<close>

theorem reranked_flag_and_bypass:
  assumes "search col t0 t1 query k rerank rk (self, w) = (Inr resp, st')"
    and "\<exists>c \<in> set query. \<not> isspace c"
  shows "dict_lookup resp ''reranked'' = Some (JBool rerank) \<and>
         (rerank \<longrightarrow>
            (\<exists>qv w1 cands.
               get_embedding col query w = (Inr qv, w1) \<and>
               vector_search col self qv k = Inr cands \<and>
               st' = (self, w1) \<and>
               response_results resp = map format_result (slice_to rk cands) \<and>
               (0 \<le> rk \<longrightarrow> response_results resp = map format_result (take (nat rk) cands)) \<and>
               dict_lookup resp ''reranked'' = Some (JBool True)))"
proof -
  from search_inversion [OF assms] obtain qv w1 cands where
    ge: "get_embedding col query w = (Inr qv, w1)" and
    vs: "vector_search col self qv k = Inr cands" and
    st: "st' = (self, w1)" and
    resp: "resp = make_response (map format_result (slice_to (if rerank then rk else k) cands))
                    rerank (py_int ((t1 - t0) * 1000)) (length (documents self))"
    by blast
  have flag: "dict_lookup resp ''reranked'' = Some (JBool rerank)"
    unfolding resp by (rule reranked_make_response)
  have "response_results resp = map format_result (slice_to rk cands)" if rerank
    unfolding resp using that by simp
  moreover have "slice_to rk cands = take (nat rk) cands" if "0 \<le> rk"
    using that by (simp add: slice_to_def)
  ultimately show ?thesis
    using ge vs st flag by auto
qed

theorem reranked_flag_and_bypass_witness:
  "search counting_double 0 (1 / 4) ''cats'' 5 True 2 (example_engine, 0) =
     (Inr (JDict [(''results'',
                   JList [JDict [(''id'', JInt 2), (''score'', JFloat (Fin 1)),
                                 (''content'', JStr ''beta''),
                                 (''metadata'',
                                    JDict [(''title'', JStr []), (''source'', JStr ''web'')])],
                          JDict [(''id'', JInt 1), (''score'', JFloat (Fin (3 / 5))),
                                 (''content'', JStr ''alpha''),
                                 (''metadata'',
                                    JDict [(''title'', JStr ''A''), (''source'', JStr [])])]]),
                  (''reranked'', JBool True),
                  (''metrics'', JDict [(''latency'', JInt 250), (''totalDocs'', JInt 3)])]),
      example_engine, 1) \<and>
   (\<exists>c \<in> set ''cats''. \<not> isspace c) \<and>
   (\<exists>qv w1 cands.
      get_embedding counting_double ''cats'' 0 = (Inr qv, w1) \<and>
      vector_search counting_double example_engine qv 5 = Inr cands \<and>
      response_results
        (projr (fst (search counting_double 0 (1 / 4) ''cats'' 5 True 2 (example_engine, 0)))) =
        map format_result (take (nat 2) cands))"
proof -
  have run: "search counting_double 0 (1 / 4) ''cats'' 5 True 2 (example_engine, 0) =
     (Inr (JDict [(''results'',
                   JList [JDict [(''id'', JInt 2), (''score'', JFloat (Fin 1)),
                                 (''content'', JStr ''beta''),
                                 (''metadata'',
                                    JDict [(''title'', JStr []), (''source'', JStr ''web'')])],
                          JDict [(''id'', JInt 1), (''score'', JFloat (Fin (3 / 5))),
                                 (''content'', JStr ''alpha''),
                                 (''metadata'',
                                    JDict [(''title'', JStr ''A''), (''source'', JStr [])])]]),
                  (''reranked'', JBool True),
                  (''metrics'', JDict [(''latency'', JInt 250), (''totalDocs'', JInt 3)])]),
      example_engine, 1)"
    by code_simp
  have asks: "\<exists>c \<in> set ''cats''. \<not> isspace c"
    by (simp add: isspace_def)
  from reranked_flag_and_bypass [OF run asks] run asks show ?thesis
    by auto
qed

subsection \<open>Re-ranking is truncation\<close>

lemma slice_to_map: "slice_to k (map f xs) = map f (slice_to k xs)"
  by (simp add: slice_to_def take_map)

lemma slice_to_all: "0 \<le> k \<Longrightarrow> int (length xs) \<le> k \<Longrightarrow> slice_to k xs = xs"
  by (simp add: slice_to_def)

text \<open>
  Claim C10. For a query that is not blank, a search with \<open>rerank\<close> set that
  returns is matched by the search without it from the same state, and its results are
  the first \<open>rerank_k\<close> entries of the results of that search. The public contract
  declares \<open>k\<close> and \<open>rerank_k\<close> as integers that are not negative, and the claim is
  about these calls with \<open>rerank_k\<close> at most \<open>k\<close>: the theorem asks for \<open>k\<close> not
  negative and gives the first \<open>rerank_k\<close> entries for every \<open>rerank_k\<close> that is
  not negative, whether or not it exceeds \<open>k\<close>; in general the results are the slice
  \<^verbatim>\<open>[:rerank_k]\<close>. The collaborator \<^verbatim>\<open>rerank_batch\<close> has no part in the outcome:
  replacing it changes nothing.
\<close>

theorem rerank_is_truncation:
  assumes "\<exists>c \<in> set query. \<not> isspace c"
    and "0 \<le> k"
    and "search col t0 t1 query k True rk (self, w) = (Inr reranked, st)"
  shows "(\<exists>plain.
            search col t0' t1' query k False rk (self, w) = (Inr plain, st) \<and>
            response_results reranked = slice_to rk (response_results plain) \<and>
            (0 \<le> rk \<longrightarrow> response_results reranked = take (nat rk) (response_results plain))) \<and>
         search (col\<lparr>rerank_batch := other\<rparr>) t0 t1 query k True rk (self, w) =
           search col t0 t1 query k True rk (self, w)"
proof -
  from search_inversion [OF assms(3,1)] obtain qv w1 cands where
    ge: "get_embedding col query w = (Inr qv, w1)" and
    vs: "vector_search col self qv k = Inr cands" and
    st: "st = (self, w1)" and
    resp: "reranked = make_response (map format_result (slice_to (if True then rk else k) cands))
                    True (py_int ((t1 - t0) * 1000)) (length (documents self))"
    by blast
  let ?plain = "make_response (map format_result (slice_to (if False then rk else k) cands))
                    False (py_int ((t1' - t0') * 1000)) (length (documents self))"
  have plain: "search col t0' t1' query k False rk (self, w) = (Inr ?plain, st)"
    unfolding st using assms(1) ge vs by (rule search_returns)
  from vector_search_length [OF vs] assms(2) have "int (length cands) \<le> k" by simp
  with assms(2) have all: "slice_to k cands = cands" by (rule slice_to_all)
  have r: "response_results reranked = map format_result (slice_to rk cands)"
    unfolding resp by simp
  have p: "response_results ?plain = map format_result cands"
    using all by simp
  have eq: "response_results reranked = slice_to rk (response_results ?plain)"
    unfolding r p by (simp add: slice_to_map)
  then have "0 \<le> rk \<longrightarrow> response_results reranked = take (nat rk) (response_results ?plain)"
    by (simp add: slice_to_def)
  with plain eq have first:
    "\<exists>plain.
        search col t0' t1' query k False rk (self, w) = (Inr plain, st) \<and>
        response_results reranked = slice_to rk (response_results plain) \<and>
        (0 \<le> rk \<longrightarrow> response_results reranked = take (nat rk) (response_results plain))"
    by blast
  have "vector_search (col\<lparr>rerank_batch := other\<rparr>) self v k = vector_search col self v k" for v
    by (simp add: vector_search_def)
  then have "search (col\<lparr>rerank_batch := other\<rparr>) t0 t1 query k True rk (self, w) =
           search col t0 t1 query k True rk (self, w)"
    by (simp add: search_def split: prod.splits sum.splits)
  with first show ?thesis by blast
qed

theorem rerank_is_truncation_witness:
  "(\<exists>c \<in> set ''cats''. \<not> isspace c) \<and> (0::int) \<le> 3 \<and>
   \<not> isl (fst (search counting_double 0 (1 / 4) ''cats'' 3 True 2 (example_engine, 0))) \<and>
   response_results
     (projr (fst (search counting_double 0 (1 / 4) ''cats'' 3 True 2 (example_engine, 0)))) =
   take (nat 2)
     (response_results
        (projr (fst (search counting_double 1 2 ''cats'' 3 False 2 (example_engine, 0)))))"
proof -
  obtain reranked where run:
    "search counting_double 0 (1 / 4) ''cats'' 3 True 2 (example_engine, 0) =
       (Inr reranked, example_engine, 1)"
    by (simp add: example_defs model_defs)
  have asks: "\<exists>c \<in> set ''cats''. \<not> isspace c"
    by (simp add: isspace_def)
  have k: "(0::int) \<le> 3" by simp
  from rerank_is_truncation [OF asks k run, where t0' = 1 and t1' = 2]
  obtain plain where
    "search counting_double 1 2 ''cats'' 3 False 2 (example_engine, 0) =
       (Inr plain, example_engine, 1)"
    "response_results reranked = take (nat 2) (response_results plain)"
    by auto
  with run asks show ?thesis by simp
qed

subsection \<open>The shape of the response\<close>

lemma format_result_shape:
  "\<exists>ident score content title source.
     format_result c =
       JDict [(''id'', JInt ident), (''score'', JFloat score), (''content'', JStr content),
              (''metadata'', JDict [(''title'', JStr title), (''source'', JStr source)])]"
  by (simp add: format_result_def)

lemma make_response_shape:
  assumes "resp = make_response (map format_result cands) b lat n"
  shows "dict_keys resp = [''results'', ''reranked'', ''metrics''] \<and>
         dict_keys (response_metrics resp) = [''latency'', ''totalDocs''] \<and>
         (\<exists>results latency.
            resp = JDict [(''results'', JList results),
                          (''reranked'', JBool b),
                          (''metrics'',
                             JDict [(''latency'', JInt latency), (''totalDocs'', JInt (int n))])] \<and>
            (\<forall>r \<in> set results.
               \<exists>ident score content title source.
                 r = JDict [(''id'', JInt ident), (''score'', JFloat score),
                            (''content'', JStr content),
                            (''metadata'',
                               JDict [(''title'', JStr title), (''source'', JStr source)])]))"
proof -
  have "\<forall>r \<in> set (map format_result cands).
          \<exists>ident score content title source.
            r = JDict [(''id'', JInt ident), (''score'', JFloat score),
                       (''content'', JStr content),
                       (''metadata'',
                          JDict [(''title'', JStr title), (''source'', JStr source)])]"
    using format_result_shape by auto
  then show ?thesis
    unfolding assms by (simp add: make_response_def response_metrics_def)
qed

text \<open>
  Claim C6, amended. Every response of \<^verbatim>\<open>search\<close> is a dictionary with the keys
  \<open>results\<close>, \<open>reranked\<close> and \<open>metrics\<close>, in this order: a list, a truth value
  and a dictionary with the keys \<open>latency\<close> and \<open>totalDocs\<close>, both integers, the
  second the number of documents. Every result is a dictionary with the keys \<open>id\<close>,
  \<open>score\<close>, \<open>content\<close> and \<open>metadata\<close>, the last a dictionary with the keys
  \<open>title\<close> and \<open>source\<close>. The key of the latency is \<open>latency\<close> on both paths of
  the method; no response has a key \<open>latencyMs\<close>, as the counterexample shows for a
  query that is answered and for the empty query.
\<close>

theorem response_shape:
  assumes "search col t0 t1 query k rerank rk (self, w) = (Inr resp, st')"
  shows "dict_keys resp = [''results'', ''reranked'', ''metrics''] \<and>
         dict_keys (response_metrics resp) = [''latency'', ''totalDocs''] \<and>
         (\<exists>results reranked latency.
            resp = JDict [(''results'', JList results),
                          (''reranked'', JBool reranked),
                          (''metrics'',
                             JDict [(''latency'', JInt latency),
                                    (''totalDocs'', JInt (int (length (documents self))))])] \<and>
            (\<forall>r \<in> set results.
               \<exists>ident score content title source.
                 r = JDict [(''id'', JInt ident), (''score'', JFloat score),
                            (''content'', JStr content),
                            (''metadata'',
                               JDict [(''title'', JStr title), (''source'', JStr source)])]))"
proof -
  have "\<exists>cands b lat. resp = make_response (map format_result cands) b lat (length (documents self))"
  proof (cases "\<exists>c \<in> set query. \<not> isspace c")
    case True
    from search_inversion [OF assms True] show ?thesis by blast
  next
    case False
    then have "query = [] \<or> strip query = []" by (simp add: strip_empty_iff)
    with assms have "resp = make_response (map format_result []) False 0 (length (documents self))"
      by (auto simp add: search_def)
    then show ?thesis by blast
  qed
  then obtain cands b lat where
    "resp = make_response (map format_result cands) b lat (length (documents self))"
    by blast
  from make_response_shape [OF this] show ?thesis by blast
qed

theorem response_shape_witness:
  "search counting_double 0 (1 / 4) ''cats'' 5 True 2 (example_engine, 0) =
     (Inr (JDict [(''results'',
                   JList [JDict [(''id'', JInt 2), (''score'', JFloat (Fin 1)),
                                 (''content'', JStr ''beta''),
                                 (''metadata'',
                                    JDict [(''title'', JStr []), (''source'', JStr ''web'')])],
                          JDict [(''id'', JInt 1), (''score'', JFloat (Fin (3 / 5))),
                                 (''content'', JStr ''alpha''),
                                 (''metadata'',
                                    JDict [(''title'', JStr ''A''), (''source'', JStr [])])]]),
                  (''reranked'', JBool True),
                  (''metrics'', JDict [(''latency'', JInt 250), (''totalDocs'', JInt 3)])]),
      example_engine, 1) \<and>
   dict_keys (response_metrics
     (projr (fst (search counting_double 0 (1 / 4) ''cats'' 5 True 2 (example_engine, 0))))) =
     [''latency'', ''totalDocs'']"
proof -
  have run: "search counting_double 0 (1 / 4) ''cats'' 5 True 2 (example_engine, 0) =
     (Inr (JDict [(''results'',
                   JList [JDict [(''id'', JInt 2), (''score'', JFloat (Fin 1)),
                                 (''content'', JStr ''beta''),
                                 (''metadata'',
                                    JDict [(''title'', JStr []), (''source'', JStr ''web'')])],
                          JDict [(''id'', JInt 1), (''score'', JFloat (Fin (3 / 5))),
                                 (''content'', JStr ''alpha''),
                                 (''metadata'',
                                    JDict [(''title'', JStr ''A''), (''source'', JStr [])])]]),
                  (''reranked'', JBool True),
                  (''metrics'', JDict [(''latency'', JInt 250), (''totalDocs'', JInt 3)])]),
      example_engine, 1)"
    by code_simp
  from response_shape [OF run] have
    "dict_keys (response_metrics
       (JDict [(''results'',
                   JList [JDict [(''id'', JInt 2), (''score'', JFloat (Fin 1)),
                                 (''content'', JStr ''beta''),
                                 (''metadata'',
                                    JDict [(''title'', JStr []), (''source'', JStr ''web'')])],
                          JDict [(''id'', JInt 1), (''score'', JFloat (Fin (3 / 5))),
                                 (''content'', JStr ''alpha''),
                                 (''metadata'',
                                    JDict [(''title'', JStr ''A''), (''source'', JStr [])])]]),
                  (''reranked'', JBool True),
                  (''metrics'', JDict [(''latency'', JInt 250), (''totalDocs'', JInt 3)])])) =
     [''latency'', ''totalDocs'']"
    by blast
  with run show ?thesis by simp
qed

theorem response_shape_counterexample:
  "\<not> isl (fst (search counting_double 0 (1 / 4) ''cats'' 5 True 2 (example_engine, 0))) \<and>
   dict_lookup (response_metrics
     (projr (fst (search counting_double 0 (1 / 4) ''cats'' 5 True 2 (example_engine, 0)))))
     ''latencyMs'' = None \<and>
   dict_keys (response_metrics
     (projr (fst (search counting_double 0 (1 / 4) ''cats'' 5 True 2 (example_engine, 0))))) \<noteq>
     [''latencyMs'', ''totalDocs''] \<and>
   dict_lookup (response_metrics
     (projr (fst (search counting_double 0 (1 / 4) '''' 5 True 2 (example_engine, 0)))))
     ''latencyMs'' = None"
  by (simp add: example_defs model_defs)

subsection \<open>The engine is not written by a search\<close>

lemma serve_engine_unchanged: "fst (serve col reqs (self, w)) = self"
proof (induction reqs arbitrary: w)
  case Nil
  then show ?case by simp
next
  case (Cons r reqs)
  obtain out self' w' where
    step: "search col (req_start r) (req_end r) (req_query r) (req_k r) (req_rerank r)
             (req_rerank_k r) (self, w) = (out, self', w')"
    by (metis prod_cases3)
  with search_engine_unchanged [of col "req_start r" "req_end r" "req_query r" "req_k r"
      "req_rerank r" "req_rerank_k r" self w]
  have "self' = self" by simp
  with step Cons.IH [of w'] show ?case by simp
qed

text \<open>
  Claim C8. A call of \<^verbatim>\<open>search\<close> leaves the documents and the embeddings of the
  engine as they were, whatever the arguments and the collaborators are and whether it
  returns a response or raises; so does every sequence of calls. The method assigns to
  no attribute of the engine, and the list that it appends to, sorts in place and slices
  is the one that \<^verbatim>\<open>vector_search\<close> creates during the call.
\<close>

theorem search_frame:
  "documents (fst (snd (search col t0 t1 query k rerank rk (self, w)))) = documents self \<and>
   embeddings (fst (snd (search col t0 t1 query k rerank rk (self, w)))) = embeddings self \<and>
   documents (fst (serve col reqs (self, w))) = documents self \<and>
   embeddings (fst (serve col reqs (self, w))) = embeddings self"
proof -
  have "fst (snd (search col t0 t1 query k rerank rk (self, w))) = self"
    by (simp add: search_def split: prod.splits sum.splits)
  moreover have "fst (serve col reqs (self, w)) = self"
    by (rule serve_engine_unchanged)
  ultimately show ?thesis by simp
qed

theorem search_frame_witness:
  "documents (fst (snd (search counting_double 0 (1 / 4) ''cats'' 5 True 2 (example_engine, 0)))) =
     example_documents \<and>
   embeddings (fst (snd (search counting_double 0 (1 / 4) ''cats'' 5 True 2 (example_engine, 0)))) =
     example_embeddings \<and>
   snd (snd (search counting_double 0 (1 / 4) ''cats'' 5 True 2 (example_engine, 0))) = 1"
  using search_frame [of counting_double 0 "1 / 4" "''cats''" 5 True 2 example_engine 0 "[]"]
  by (simp add: example_defs search_def vector_search_def isspace_def strip_def
        split: prod.splits sum.splits)

subsection \<open>Alignment of embeddings and documents\<close>

lemma engine_init_inversion:
  assumes "engine_init col w = (Inr eng, w')"
  shows "\<exists>docs wa.
           read_documents col w = (Inr docs, wa) \<and> documents eng = docs \<and>
           ((\<exists>wb. load_embeddings col wa = (Inr (Some (embeddings eng)), wb)) \<or>
            (\<exists>wb wc. load_embeddings col wa = (Inr None, wb) \<and>
                compute_document_embeddings col docs wb = (Inr (embeddings eng), wc)))"
  using assms
  by (auto simp add: engine_init_def load_documents_def load_or_compute_embeddings_def
        split: prod.splits sum.splits option.splits)

text \<open>
  Claim C7, amended. When the constructor returns, the documents of the engine are the
  list that was read, and its embeddings are the cached sequence if the cache holds one
  and otherwise the sequence that the bulk computer returned for these documents, each
  as delivered. If a cached sequence has one vector per document read, and the bulk
  computer returns one vector per document, the engine has as many embeddings as
  documents after the construction and after every sequence of searches, which leave
  the engine as it is. The loader takes a cached sequence without comparing its length
  with the number of documents: the counterexample is a cache written for a corpus of
  one document and a corpus of three.
\<close>

theorem alignment_after_init:
  assumes init: "engine_init col w = (Inr eng, w1)"
    and cache: "\<forall>docs wa vs wb.
        read_documents col w = (Inr docs, wa) \<longrightarrow>
        load_embeddings col wa = (Inr (Some vs), wb) \<longrightarrow> length vs = length docs"
    and bulk: "\<forall>docs wa vs wb.
        compute_document_embeddings col docs wa = (Inr vs, wb) \<longrightarrow> length vs = length docs"
  shows "length (embeddings (fst (serve col reqs (eng, w1)))) =
           length (documents (fst (serve col reqs (eng, w1)))) \<and>
         fst (serve col reqs (eng, w1)) = eng \<and>
         (\<exists>docs wa.
            read_documents col w = (Inr docs, wa) \<and> documents eng = docs \<and>
            ((\<exists>wb. load_embeddings col wa = (Inr (Some (embeddings eng)), wb)) \<or>
             (\<exists>wb wc. load_embeddings col wa = (Inr None, wb) \<and>
                 compute_document_embeddings col docs wb = (Inr (embeddings eng), wc))))"
proof -
  from engine_init_inversion [OF init] obtain docs wa where
    docs: "read_documents col w = (Inr docs, wa)" "documents eng = docs" and
    src: "(\<exists>wb. load_embeddings col wa = (Inr (Some (embeddings eng)), wb)) \<or>
          (\<exists>wb wc. load_embeddings col wa = (Inr None, wb) \<and>
              compute_document_embeddings col docs wb = (Inr (embeddings eng), wc))"
    by blast
  from src have "length (embeddings eng) = length docs"
  proof
    assume "\<exists>wb. load_embeddings col wa = (Inr (Some (embeddings eng)), wb)"
    with cache docs(1) show ?thesis by blast
  next
    assume "\<exists>wb wc. load_embeddings col wa = (Inr None, wb) \<and>
              compute_document_embeddings col docs wb = (Inr (embeddings eng), wc)"
    with bulk show ?thesis by blast
  qed
  with docs(2) have aligned: "length (embeddings eng) = length (documents eng)" by simp
  have same: "fst (serve col reqs (eng, w1)) = eng"
    by (rule serve_engine_unchanged)
  from aligned same docs src show ?thesis by auto
qed

lemma counting_init: "engine_init counting_double 0 = (Inr example_engine, 0)"
  by (simp add: example_defs engine_init_def load_documents_def load_or_compute_embeddings_def)

lemma cached_init: "engine_init cached_double 0 = (Inr example_engine, 0)"
  by (simp add: example_defs engine_init_def load_documents_def load_or_compute_embeddings_def)

theorem alignment_after_init_witness:
  "engine_init counting_double 0 = (Inr example_engine, 0) \<and>
   length (embeddings (fst (serve counting_double
      [\<lparr>req_start = 0, req_end = 1 / 4, req_query = ''cats'', req_k = 5, req_rerank = True,
        req_rerank_k = 3\<rparr>,
       \<lparr>req_start = 1, req_end = 2, req_query = [], req_k = - 1, req_rerank = False,
        req_rerank_k = 0\<rparr>] (example_engine, 0)))) =
   length (documents (fst (serve counting_double
      [\<lparr>req_start = 0, req_end = 1 / 4, req_query = ''cats'', req_k = 5, req_rerank = True,
        req_rerank_k = 3\<rparr>,
       \<lparr>req_start = 1, req_end = 2, req_query = [], req_k = - 1, req_rerank = False,
        req_rerank_k = 0\<rparr>] (example_engine, 0)))) \<and>
   engine_init cached_double 0 = (Inr example_engine, 0) \<and>
   length (embeddings (fst (serve cached_double [] (example_engine, 0)))) =
   length (documents (fst (serve cached_double [] (example_engine, 0))))"
proof -
  note init = counting_init
  have cache: "\<forall>docs wa vs wb.
      read_documents counting_double 0 = (Inr docs, wa) \<longrightarrow>
      load_embeddings counting_double wa = (Inr (Some vs), wb) \<longrightarrow> length vs = length docs"
    by (simp add: example_defs)
  have bulk: "\<forall>docs wa vs wb.
      compute_document_embeddings counting_double docs wa = (Inr vs, wb) \<longrightarrow>
      length vs = length docs"
    by (auto simp add: example_defs)
  have cache': "\<forall>docs wa vs wb.
      read_documents cached_double 0 = (Inr docs, wa) \<longrightarrow>
      load_embeddings cached_double wa = (Inr (Some vs), wb) \<longrightarrow> length vs = length docs"
    by (auto simp add: example_defs)
  have bulk': "\<forall>docs wa vs wb.
      compute_document_embeddings cached_double docs wa = (Inr vs, wb) \<longrightarrow>
      length vs = length docs"
    by (auto simp add: example_defs)
  from alignment_after_init [OF init cache bulk] alignment_after_init [OF cached_init cache' bulk']
    init cached_init
  show ?thesis by blast
qed

theorem alignment_after_init_counterexample:
  "\<not> isl (fst (engine_init stale_double 0)) \<and>
   length (documents (projr (fst (engine_init stale_double 0)))) = 3 \<and>
   length (embeddings (projr (fst (engine_init stale_double 0)))) = 1 \<and>
   length (embeddings (projr (fst (engine_init stale_double 0)))) \<noteq>
     length (documents (projr (fst (engine_init stale_double 0))))"
  by (simp add: example_defs engine_init_def load_documents_def load_or_compute_embeddings_def)

end
